theory Spec2Isabelle
  imports Main "HOL-Library.Log_Nat" "HOL-Library.Sublist" "HOL-Library.Multiset"
begin

section \<open>JavaScript values\<close>

text \<open>
  The inventory dashboard (\<^verbatim>\<open>src/app.component.ts\<close>) is TypeScript; its type annotations
  are erased at run time, so the model follows the values the JavaScript really handles.

  A JavaScript number is an IEEE binary64 value. Finite values are kept as the rational
  they denote; every arithmetic result goes through \<open>round64\<close> (round to nearest, ties to
  even, overflow to an infinity). The two zeros are one value: the program never
  divides by a number and never prints the sign of a zero, so it cannot tell them apart.
\<close>

datatype jsnum = NaN | PInf | NInf | Fin rat

definition pow2 :: "int \<Rightarrow> rat" where
  "pow2 e = (if 0 \<le> e then 2 ^ nat e else 1 / 2 ^ nat (- e))"

definition ilog2 :: "rat \<Rightarrow> int" where
  \<comment> \<open>the integer part of the binary logarithm of a positive rational\<close>
  "ilog2 a = (case quotient_of a of (p, q) \<Rightarrow>
     (let k = bitlen p - bitlen q in if pow2 k \<le> a then k else k - 1))"

definition roundHalfEven :: "rat \<Rightarrow> int" where
  "roundHalfEven x = (let f = \<lfloor>x\<rfloor>; d = x - of_int f in
     if d < 1 / 2 then f else if 1 / 2 < d then f + 1 else if even f then f else f + 1)"

definition round64 :: "rat \<Rightarrow> jsnum" where
  "round64 r = (if r = 0 then Fin 0 else
     (let a = \<bar>r\<bar>;
          e = max (ilog2 a) (- 1022);
          q = pow2 (e - 52);
          v = of_int (roundHalfEven (a / q)) * q
      in if pow2 1024 \<le> v then (if 0 < r then PInf else NInf)
         else Fin (if 0 < r then v else - v)))"

definition binary64 :: "jsnum \<Rightarrow> bool" where
  \<comment> \<open>the values that are binary64 numbers: rounding leaves them as they are\<close>
  "binary64 x = (case x of Fin r \<Rightarrow> round64 r = Fin r | _ \<Rightarrow> True)"

fun num_add :: "jsnum \<Rightarrow> jsnum \<Rightarrow> jsnum" where
  "num_add NaN _ = NaN"
| "num_add _ NaN = NaN"
| "num_add PInf NInf = NaN"
| "num_add NInf PInf = NaN"
| "num_add PInf _ = PInf"
| "num_add _ PInf = PInf"
| "num_add NInf _ = NInf"
| "num_add _ NInf = NInf"
| "num_add (Fin a) (Fin b) = round64 (a + b)"

fun num_neg :: "jsnum \<Rightarrow> jsnum" where
  "num_neg NaN = NaN"
| "num_neg PInf = NInf"
| "num_neg NInf = PInf"
| "num_neg (Fin a) = Fin (- a)"

definition num_sub :: "jsnum \<Rightarrow> jsnum \<Rightarrow> jsnum" where
  "num_sub x y = num_add x (num_neg y)"

fun num_mul :: "jsnum \<Rightarrow> jsnum \<Rightarrow> jsnum" where
  "num_mul NaN _ = NaN"
| "num_mul _ NaN = NaN"
| "num_mul (Fin a) (Fin b) = round64 (a * b)"
| "num_mul (Fin a) y = (if a = 0 then NaN else if 0 < a then y else num_neg y)"
| "num_mul x (Fin b) = (if b = 0 then NaN else if 0 < b then x else num_neg x)"
| "num_mul x y = (if x = y then PInf else NInf)"

fun Math_ceil :: "jsnum \<Rightarrow> jsnum" where
  "Math_ceil NaN = NaN"
| "Math_ceil PInf = PInf"
| "Math_ceil NInf = NInf"
| "Math_ceil (Fin r) = Fin (of_int \<lceil>r\<rceil>)"

fun Math_abs :: "jsnum \<Rightarrow> jsnum" where
  "Math_abs NaN = NaN"
| "Math_abs PInf = PInf"
| "Math_abs NInf = PInf"
| "Math_abs (Fin a) = Fin \<bar>a\<bar>"

fun isNaN :: "jsnum \<Rightarrow> bool" where
  "isNaN NaN = True"
| "isNaN _ = False"

fun num_less :: "jsnum \<Rightarrow> jsnum \<Rightarrow> bool" where
  \<comment> \<open>the operator \<open><\<close>; every comparison with NaN is false\<close>
  "num_less NaN _ = False"
| "num_less _ NaN = False"
| "num_less PInf _ = False"
| "num_less _ NInf = False"
| "num_less NInf _ = True"
| "num_less _ PInf = True"
| "num_less (Fin a) (Fin b) = (a < b)"

fun num_le :: "jsnum \<Rightarrow> jsnum \<Rightarrow> bool" where
  \<comment> \<open>the operator \<open><=\<close>\<close>
  "num_le NaN _ = False"
| "num_le _ NaN = False"
| "num_le NInf _ = True"
| "num_le _ PInf = True"
| "num_le PInf _ = False"
| "num_le _ NInf = False"
| "num_le (Fin a) (Fin b) = (a \<le> b)"

section \<open>Strings\<close>

text \<open>
  A string is a list of code units; the model covers the code units below 256
  (Latin-1), which is what \<^typ>\<open>char\<close> holds.
\<close>

definition isWhiteSpace :: "char \<Rightarrow> bool" where
  \<comment> \<open>WhiteSpace and LineTerminator of ECMA-262 within Latin-1:
      TAB, LF, VT, FF, CR, SP, NBSP\<close>
  "isWhiteSpace c = (of_char c \<in> {9, 10, 11, 12, 13, 32, 160 :: int})"

definition trim :: "string \<Rightarrow> string" where
  "trim s = rev (dropWhile isWhiteSpace (rev (dropWhile isWhiteSpace s)))"

definition toLowerCase :: "string \<Rightarrow> string" where
  "toLowerCase s = map (\<lambda>c. let n = (of_char c :: int) in
      if (65 \<le> n \<and> n \<le> 90) \<or> (192 \<le> n \<and> n \<le> 222 \<and> n \<noteq> 215)
      then char_of (n + 32) else c) s"

definition str_includes :: "string \<Rightarrow> string \<Rightarrow> bool" where
  \<comment> \<open>\<open>s.includes(t)\<close>\<close>
  "str_includes s t = sublist t s"

fun join :: "string \<Rightarrow> string list \<Rightarrow> string" where
  "join sep [] = []"
| "join sep [x] = x"
| "join sep (x # y # ys) = x @ sep @ join sep (y # ys)"

subsection \<open>The conversion of a string to a number\<close>

text \<open>
  \<open>Number(s)\<close> on a string is StringToNumber of ECMA-262: white space is stripped on both
  sides; the empty string is 0; then a binary, octal or hexadecimal integer literal, or
  an optionally signed decimal literal (\<open>Infinity\<close>, digits with an optional fraction
  and exponent); anything else is NaN.
\<close>

definition isDigit :: "char \<Rightarrow> bool" where
  "isDigit c = (48 \<le> (of_char c :: int) \<and> (of_char c :: int) \<le> 57)"

definition digitVal :: "char \<Rightarrow> int" where
  "digitVal c = (let n = (of_char c :: int) in
     if 48 \<le> n \<and> n \<le> 57 then n - 48
     else if 97 \<le> n \<and> n \<le> 102 then n - 87
     else if 65 \<le> n \<and> n \<le> 70 then n - 55
     else 16)"

definition digitsVal :: "int \<Rightarrow> string \<Rightarrow> int" where
  "digitsVal b ds = foldl (\<lambda>acc c. acc * b + digitVal c) 0 ds"

definition radixLiteral :: "int \<Rightarrow> string \<Rightarrow> jsnum" where
  "radixLiteral b ds =
     (if ds \<noteq> [] \<and> (\<forall>c \<in> set ds. digitVal c < b) then round64 (of_int (digitsVal b ds)) else NaN)"

definition exponentPart :: "string \<Rightarrow> int option" where
  \<comment> \<open>what follows the mantissa: nothing, or \<open>e\<close>/\<open>E\<close>, an optional sign and digits\<close>
  "exponentPart s = (case s of
       [] \<Rightarrow> Some 0
     | c # t \<Rightarrow>
         if c = CHR ''e'' \<or> c = CHR ''E'' then
           (let (neg, ds) = (case t of
                  [] \<Rightarrow> (False, [])
                | d # u \<Rightarrow> if d = CHR ''-'' then (True, u)
                           else if d = CHR ''+'' then (False, u) else (False, t))
            in if ds \<noteq> [] \<and> (\<forall>d \<in> set ds. isDigit d)
               then Some (if neg then - digitsVal 10 ds else digitsVal 10 ds)
               else None)
         else None)"

definition unsignedDecimal :: "string \<Rightarrow> rat option" where
  "unsignedDecimal s =
     (let ip = takeWhile isDigit s; r1 = dropWhile isDigit s;
          dot = (r1 \<noteq> [] \<and> hd r1 = CHR ''.'');
          r2 = (if dot then tl r1 else r1);
          fp = (if dot then takeWhile isDigit r2 else []);
          r3 = (if dot then dropWhile isDigit r2 else r2)
      in if ip = [] \<and> fp = [] then None
         else (case exponentPart r3 of
                 None \<Rightarrow> None
               | Some e \<Rightarrow>
                   Some ((of_int (digitsVal 10 ip) + of_int (digitsVal 10 fp) / 10 ^ length fp)
                         * (if 0 \<le> e then 10 ^ nat e else 1 / 10 ^ nat (- e)))))"

definition decimalLiteral :: "string \<Rightarrow> jsnum" where
  "decimalLiteral s =
     (let (neg, u) = (case s of
            [] \<Rightarrow> (False, [])
          | c # t \<Rightarrow> if c = CHR ''-'' then (True, t)
                     else if c = CHR ''+'' then (False, t) else (False, s))
      in if u = ''Infinity'' then (if neg then NInf else PInf)
         else (case unsignedDecimal u of
                 None \<Rightarrow> NaN
               | Some v \<Rightarrow> round64 (if neg then - v else v)))"

definition StringToNumber :: "string \<Rightarrow> jsnum" where
  "StringToNumber s =
     (let t = trim s in
      if t = [] then Fin 0
      else if take 2 t = ''0x'' \<or> take 2 t = ''0X'' then radixLiteral 16 (drop 2 t)
      else if take 2 t = ''0o'' \<or> take 2 t = ''0O'' then radixLiteral 8 (drop 2 t)
      else if take 2 t = ''0b'' \<or> take 2 t = ''0B'' then radixLiteral 2 (drop 2 t)
      else decimalLiteral t)"

section \<open>Values, cells and the reading of a row\<close>

text \<open>
  A cell of the incoming table is a string or a number
  (\<^verbatim>\<open>rows: (string | number)[][]\<close> in \<^verbatim>\<open>models/inventory.model.ts\<close>). Reading a row at a
  position it does not have, or at the index -1 of an absent column, gives \<open>undefined\<close>.
  The casts \<^verbatim>\<open>as string\<close> of the source do nothing at run time, so a field declared
  \<^verbatim>\<open>string\<close> can hold a number; such fields are values here.
\<close>

datatype jsval = Undefined | Str string | Num jsnum

datatype cell = CStr string | CNum jsnum

datatype error = Error string | TypeError

fun ofCell :: "cell \<Rightarrow> jsval" where
  "ofCell (CStr s) = Str s"
| "ofCell (CNum n) = Num n"

definition cellAt :: "cell list \<Rightarrow> int \<Rightarrow> jsval" where
  \<comment> \<open>\<open>row[i]\<close>\<close>
  "cellAt row i = (if 0 \<le> i \<and> nat i < length row then ofCell (row ! nat i) else Undefined)"

fun truthy :: "jsval \<Rightarrow> bool" where
  "truthy Undefined = False"
| "truthy (Str s) = (s \<noteq> [])"
| "truthy (Num n) = (n \<noteq> Fin 0 \<and> n \<noteq> NaN)"

definition orElse :: "jsval \<Rightarrow> jsval \<Rightarrow> jsval" where
  \<comment> \<open>\<open>a || b\<close>\<close>
  "orElse a b = (if truthy a then a else b)"

fun Number :: "jsval \<Rightarrow> jsnum" where
  "Number Undefined = NaN"
| "Number (Str s) = StringToNumber s"
| "Number (Num n) = n"

fun indexOf :: "string list \<Rightarrow> string \<Rightarrow> int" where
  "indexOf [] h = - 1"
| "indexOf (x # xs) h =
     (if x = h then 0 else (let i = indexOf xs h in if i = - 1 then - 1 else i + 1))"

subsection \<open>Dates\<close>

text \<open>
  \<open>new Date(v).getTime()\<close>: the time value in milliseconds, or NaN for an invalid date.
  A string goes through \<open>Date.parse\<close>, whose accepted formats beyond the ISO one depend on
  the engine: it is the field \<open>dateParse\<close> of the environment. Any other value is
  converted to a number and clipped (TimeClip).
\<close>

definition TimeClip :: "jsnum \<Rightarrow> jsnum" where
  "TimeClip n = (case n of
       Fin r \<Rightarrow> if \<bar>r\<bar> \<le> 8640000000000000
                then Fin (of_int (if 0 \<le> r then \<lfloor>r\<rfloor> else \<lceil>r\<rceil>)) else NaN
     | _ \<Rightarrow> NaN)"

section \<open>The environment\<close>

text \<open>
  What the program takes from outside its own source: the cost-centre table
  (\<^verbatim>\<open>./data/cost-centers\<close>, imported by the component; its own entries, from code to
  name), and the parts of the JavaScript engine that depend on the implementation, the
  locale or the time zone:
  \<open>Date.parse\<close>, \<open>String.prototype.localeCompare\<close>, the conversion of a number to a
  string, \<open>setHours(0, 0, 0, 0)\<close> and \<open>setHours(23, 59, 59, 999)\<close> on a time value, and
  the message of a TypeError.
\<close>

record env =
  costCenterMap :: "string \<Rightarrow> string option"
  dateParse :: "string \<Rightarrow> int option"
  localeCompare :: "string \<Rightarrow> string \<Rightarrow> int"
  otherNumberToString :: "rat \<Rightarrow> string"
  startOfDay :: "int \<Rightarrow> int"
  endOfDay :: "int \<Rightarrow> int"
  typeErrorMessage :: "string"

definition getTime :: "env \<Rightarrow> jsval \<Rightarrow> jsnum" where
  "getTime E v = (case v of
       Str s \<Rightarrow> (case dateParse E s of None \<Rightarrow> NaN | Some t \<Rightarrow> Fin (of_int t))
     | other \<Rightarrow> TimeClip (Number other))"

section \<open>The data model\<close>

text \<open>The field \<^verbatim>\<open>text\<close> of a transaction is \<open>freeText\<close> here.\<close>

record Transaction =
  postingDate :: jsval
  quantity :: jsnum
  user :: jsval
  costCenter :: jsval
  reservation :: jsval
  document :: jsval
  headerText :: jsval
  freeText :: jsval

text \<open>
  \<open>summary\<close> is \<^verbatim>\<open>Omit<MaterialSummary, 'material'>\<close>, the value type of the map that
  \<^verbatim>\<open>processData\<close> fills; \<open>MaterialSummary\<close> adds the key.
\<close>

record summary =
  materialDescription :: jsval
  totalIn :: jsnum
  totalOut :: jsnum
  balance :: jsnum
  unit :: jsval
  inTransactions :: "Transaction list"
  outTransactions :: "Transaction list"

record MaterialSummary = summary +
  material :: jsval

record InventoryResponse =
  headers :: "string list"
  rows :: "cell list list"

section \<open>Sorting\<close>

text \<open>
  \<open>Array.prototype.sort(cmp)\<close> is stable, and a comparator result of NaN counts as 0.
  An element moves behind a later one only when the comparator is positive on the pair.
  For a consistent comparator every stable sort returns the same list. For the others
  (a comparator that gives NaN on some pair is one) the standard leaves the order to the
  engine, and the model is this insertion sort there. The general statements below
  about a list sorted with such a comparator are about its elements and their number,
  not about their order; in the example of the missing posting date the comparator
  gives NaN on each pair of neighbours, and the list stays as it is.
\<close>

fun insertSorted :: "('a \<Rightarrow> 'a \<Rightarrow> jsnum) \<Rightarrow> 'a \<Rightarrow> 'a list \<Rightarrow> 'a list" where
  "insertSorted cmp x [] = [x]"
| "insertSorted cmp x (y # ys) =
     (if num_less (Fin 0) (cmp x y) then y # insertSorted cmp x ys else x # y # ys)"

definition Array_sort :: "('a \<Rightarrow> 'a \<Rightarrow> jsnum) \<Rightarrow> 'a list \<Rightarrow> 'a list" where
  "Array_sort cmp xs = foldr (insertSorted cmp) xs []"

definition byDateDesc :: "env \<Rightarrow> Transaction \<Rightarrow> Transaction \<Rightarrow> jsnum" where
  \<comment> \<open>\<open>(a, b) => new Date(b.postingDate).getTime() - new Date(a.postingDate).getTime()\<close>\<close>
  "byDateDesc E a b = num_sub (getTime E (postingDate b)) (getTime E (postingDate a))"

section \<open>Aggregation: processData\<close>

definition required :: "string list" where
  "required = [''Material'', ''Material Description'', ''Quantity'', ''Unit of Entry'',
               ''Movement Type'']"

definition schemaMessage :: "string" where
  "schemaMessage =
     ''Data format is incorrect. Missing columns. Required: '' @ join '', '' required @ ''.''"

definition has :: "('k \<times> 'v) list \<Rightarrow> 'k \<Rightarrow> bool" where
  "has m k = (k \<in> set (map fst m))"

definition modify :: "'k \<Rightarrow> ('v \<Rightarrow> 'v) \<Rightarrow> ('k \<times> 'v) list \<Rightarrow> ('k \<times> 'v) list" where
  \<comment> \<open>the entry of key \<open>k\<close> is an object, changed in place\<close>
  "modify k f m = map (\<lambda>(k', v). if k' = k then (k', f v) else (k', v)) m"

definition newSummary :: "string list \<Rightarrow> cell list \<Rightarrow> summary" where
  "newSummary hs row =
     \<lparr> materialDescription = orElse (cellAt row (indexOf hs ''Material Description''))
                                     (Str ''No Description''),
       totalIn = Fin 0, totalOut = Fin 0, balance = Fin 0,
       unit = orElse (cellAt row (indexOf hs ''Unit of Entry'')) (Str ''N/A''),
       inTransactions = [], outTransactions = [] \<rparr>"

definition resolveCostCenter :: "env \<Rightarrow> string \<Rightarrow> jsval" where
  \<comment> \<open>\<open>costCenterMap[costCenterCode.trim()] || costCenterCode\<close>\<close>
  "resolveCostCenter E code =
     orElse (case costCenterMap E (trim code) of None \<Rightarrow> Undefined | Some name \<Rightarrow> Str name)
            (Str code)"

definition mkTransaction :: "env \<Rightarrow> string list \<Rightarrow> cell list \<Rightarrow> string \<Rightarrow> Transaction" where
  "mkTransaction E hs row code =
     \<lparr> postingDate = cellAt row (indexOf hs ''Posting Date''),
       quantity = Math_abs (Number (cellAt row (indexOf hs ''Quantity''))),
       user = orElse (cellAt row (indexOf hs ''User Name'')) (Str []),
       costCenter = resolveCostCenter E code,
       reservation = orElse (cellAt row (indexOf hs ''Reservation'')) (Str []),
       document = orElse (cellAt row (indexOf hs ''Material Document'')) (Str []),
       headerText = orElse (cellAt row (indexOf hs ''Document Header Text'')) (Str []),
       freeText = orElse (cellAt row (indexOf hs ''Text'')) (Str []) \<rparr>"

text \<open>
  The body of the loop over the rows. \<open>(row[i] as string)?.trim()\<close> is \<open>undefined\<close> on
  \<open>undefined\<close>, the trimmed string on a string, and throws a TypeError on a number,
  which has no method \<open>trim\<close>; so does \<open>costCenterCode.trim()\<close>.
\<close>

definition processRow ::
  "env \<Rightarrow> string list \<Rightarrow> (jsval \<times> summary) list \<Rightarrow> cell list
     \<Rightarrow> error + (jsval \<times> summary) list" where
  "processRow E hs m row =
     (case cellAt row (indexOf hs ''Movement Type'') of
        Num n \<Rightarrow> Inl TypeError
      | Undefined \<Rightarrow> Inr m
      | Str mt \<Rightarrow>
         (let movementType = trim mt in
          if movementType \<noteq> ''101'' \<and> movementType \<noteq> ''201'' then Inr m
          else
            (let material = cellAt row (indexOf hs ''Material'');
                 qty = Number (cellAt row (indexOf hs ''Quantity''))
             in if \<not> truthy material \<or> isNaN qty then Inr m
                else
                  (let m1 = (if has m material then m else m @ [(material, newSummary hs row)])
                   in case orElse (cellAt row (indexOf hs ''Cost Center'')) (Str []) of
                        Str code \<Rightarrow>
                          (let transaction = mkTransaction E hs row code
                           in if movementType = ''101''
                              then Inr (modify material
                                     (\<lambda>c. c\<lparr> totalIn := num_add (totalIn c) qty,
                                             inTransactions := inTransactions c @ [transaction] \<rparr>) m1)
                              else Inr (modify material
                                     (\<lambda>c. c\<lparr> totalOut := num_add (totalOut c) (Math_abs qty),
                                             outTransactions := outTransactions c @ [transaction] \<rparr>) m1))
                      | other \<Rightarrow> Inl TypeError))))"

fun processRows ::
  "env \<Rightarrow> string list \<Rightarrow> (jsval \<times> summary) list \<Rightarrow> cell list list
     \<Rightarrow> error + (jsval \<times> summary) list" where
  "processRows E hs m [] = Inr m"
| "processRows E hs m (row # rest) =
     (case processRow E hs m row of
        Inl e \<Rightarrow> Inl e
      | Inr m' \<Rightarrow> processRows E hs m' rest)"

definition finish :: "env \<Rightarrow> jsval \<times> summary \<Rightarrow> MaterialSummary" where
  \<comment> \<open>the function mapped over \<open>summaryMap.entries()\<close>\<close>
  "finish E kv = (case kv of (key, v) \<Rightarrow>
     \<lparr> materialDescription = materialDescription v,
       totalIn = totalIn v, totalOut = totalOut v,
       balance = num_sub (totalIn v) (totalOut v),
       unit = unit v,
       inTransactions = Array_sort (byDateDesc E) (inTransactions v),
       outTransactions = Array_sort (byDateDesc E) (outTransactions v),
       material = key \<rparr>)"

definition processData :: "env \<Rightarrow> InventoryResponse \<Rightarrow> error + MaterialSummary list" where
  "processData E response =
     (if \<exists>h \<in> set required. indexOf (headers response) h = - 1
      then Inl (Error schemaMessage)
      else (case processRows E (headers response) [] (rows response) of
              Inl e \<Rightarrow> Inl e
            | Inr m \<Rightarrow> Inr (map (finish E) m)))"

subsection \<open>Reading one row\<close>

text \<open>
  What the loop body reads from a row, named for the statements below: the trimmed
  movement type (of a string cell), the material key, the converted quantity, the
  transaction built from the row, and the test that lets a row through both
  \<open>continue\<close> statements.
\<close>

definition rowMovement :: "string list \<Rightarrow> cell list \<Rightarrow> string" where
  "rowMovement hs row =
     (case cellAt row (indexOf hs ''Movement Type'') of Str mt \<Rightarrow> trim mt | _ \<Rightarrow> [])"

definition rowMaterial :: "string list \<Rightarrow> cell list \<Rightarrow> jsval" where
  "rowMaterial hs row = cellAt row (indexOf hs ''Material'')"

definition rowQuantity :: "string list \<Rightarrow> cell list \<Rightarrow> jsnum" where
  "rowQuantity hs row = Number (cellAt row (indexOf hs ''Quantity''))"

definition rowTransaction :: "env \<Rightarrow> string list \<Rightarrow> cell list \<Rightarrow> Transaction" where
  "rowTransaction E hs row =
     mkTransaction E hs row
       (case orElse (cellAt row (indexOf hs ''Cost Center'')) (Str []) of
          Str code \<Rightarrow> code | _ \<Rightarrow> [])"

definition admitted :: "string list \<Rightarrow> cell list \<Rightarrow> bool" where
  "admitted hs row =
     ((rowMovement hs row = ''101'' \<or> rowMovement hs row = ''201'')
      \<and> truthy (rowMaterial hs row) \<and> \<not> isNaN (rowQuantity hs row))"

definition rowReturns :: "string list \<Rightarrow> cell list \<Rightarrow> bool" where
  \<comment> \<open>neither call of \<open>trim\<close> in the loop body is on a number: the Movement Type cell
      is not a number and, for an admitted row, neither is \<open>costCenterCode\<close>\<close>
  "rowReturns hs row =
     ((case cellAt row (indexOf hs ''Movement Type'') of Num n \<Rightarrow> False | _ \<Rightarrow> True)
      \<and> (admitted hs row \<longrightarrow>
           (case orElse (cellAt row (indexOf hs ''Cost Center'')) (Str []) of
              Str code \<Rightarrow> True | _ \<Rightarrow> False)))"

definition materialRows :: "string list \<Rightarrow> jsval \<Rightarrow> cell list list \<Rightarrow> cell list list" where
  "materialRows hs k rs = filter (\<lambda>r. admitted hs r \<and> rowMaterial hs r = k) rs"

definition inboundRows :: "string list \<Rightarrow> jsval \<Rightarrow> cell list list \<Rightarrow> cell list list" where
  "inboundRows hs k rs =
     filter (\<lambda>r. admitted hs r \<and> rowMaterial hs r = k \<and> rowMovement hs r = ''101'') rs"

definition outboundRows :: "string list \<Rightarrow> jsval \<Rightarrow> cell list list \<Rightarrow> cell list list" where
  "outboundRows hs k rs =
     filter (\<lambda>r. admitted hs r \<and> rowMaterial hs r = k \<and> rowMovement hs r = ''201'') rs"

definition applyRow :: "env \<Rightarrow> string list \<Rightarrow> cell list \<Rightarrow> summary \<Rightarrow> summary" where
  \<comment> \<open>the two branches on \<open>movementType\<close> at the end of the loop body\<close>
  "applyRow E hs row c =
     (if rowMovement hs row = ''101''
      then c\<lparr> totalIn := num_add (totalIn c) (rowQuantity hs row),
              inTransactions := inTransactions c @ [rowTransaction E hs row] \<rparr>
      else c\<lparr> totalOut := num_add (totalOut c) (Math_abs (rowQuantity hs row)),
              outTransactions := outTransactions c @ [rowTransaction E hs row] \<rparr>)"

definition stepFor :: "env \<Rightarrow> string list \<Rightarrow> jsval \<Rightarrow> summary option \<Rightarrow> cell list \<Rightarrow> summary option" where
  \<comment> \<open>the effect of one row on the map entry of the key \<open>k\<close>\<close>
  "stepFor E hs k entry row =
     (if admitted hs row \<and> rowMaterial hs row = k
      then Some (applyRow E hs row (case entry of None \<Rightarrow> newSummary hs row | Some c \<Rightarrow> c))
      else entry)"

definition dateKey :: "env \<Rightarrow> Transaction \<Rightarrow> rat" where
  \<comment> \<open>the key by which the date comparator orders transactions with valid dates\<close>
  "dateKey E t = (case getTime E (postingDate t) of Fin r \<Rightarrow> - r | _ \<Rightarrow> 0)"

section \<open>The component state\<close>

datatype movementFilter = FilterAll | Filter101 | Filter201

datatype sortableColumn = ColMaterialDescription | ColBalance

datatype sortDirection = Asc | Desc

datatype viewType = ViewIn | ViewOut

datatype themeName = Light | Dark

datatype dashboardMovement = MoveAll | MoveIn | MoveOut

record dashboardFilter =
  filterDate :: string
  filterMovement :: dashboardMovement
  filterUser :: string
  filterCostCenter :: string
  filterDetails :: string

text \<open>
  The signals of \<^verbatim>\<open>AppComponent\<close>. The current page is a number, as the argument of
  \<^verbatim>\<open>goToPage\<close> is. A date is its time value.
\<close>

record state =
  inventoryData :: "MaterialSummary list"
  loading :: bool
  error :: "string option"
  lastUpdated :: "int option"
  theme :: themeName
  searchTerm :: string
  movementTypeFilter :: movementFilter
  sortConfig :: "sortableColumn \<times> sortDirection"
  showLowStockOnly :: bool
  currentPage :: jsnum
  selectedMaterial :: "MaterialSummary option"
  detailedViewType :: "viewType option"
  dateFrom :: string
  dateTo :: string
  dashboardFilters :: dashboardFilter

definition itemsPerPage :: int where
  "itemsPerPage = 12"

definition lowStockThreshold :: jsnum where
  "lowStockThreshold = Fin 10"

section \<open>Derived views\<close>

fun filterE :: "('a \<Rightarrow> error + bool) \<Rightarrow> 'a list \<Rightarrow> error + 'a list" where
  \<comment> \<open>\<open>Array.prototype.filter\<close> with a callback that may throw\<close>
  "filterE p [] = Inr []"
| "filterE p (x # xs) =
     (case p x of
        Inl e \<Rightarrow> Inl e
      | Inr b \<Rightarrow> (case filterE p xs of
                    Inl e \<Rightarrow> Inl e
                  | Inr ys \<Rightarrow> Inr (if b then x # ys else ys)))"

fun mapE :: "('a \<Rightarrow> error + 'b) \<Rightarrow> 'a list \<Rightarrow> error + 'b list" where
  \<comment> \<open>\<open>Array.prototype.map\<close> with a callback that may throw\<close>
  "mapE f [] = Inr []"
| "mapE f (x # xs) =
     (case f x of
        Inl e \<Rightarrow> Inl e
      | Inr y \<Rightarrow> (case mapE f xs of
                    Inl e \<Rightarrow> Inl e
                  | Inr ys \<Rightarrow> Inr (y # ys)))"

definition matchesTerm :: "string \<Rightarrow> MaterialSummary \<Rightarrow> error + bool" where
  \<comment> \<open>\<open>item.material.toLowerCase().includes(term) ||
      item.materialDescription.toLowerCase().includes(term)\<close>;
      a value that is not a string has no method \<open>toLowerCase\<close>\<close>
  "matchesTerm term item =
     (case material item of
        Str m \<Rightarrow>
          if str_includes (toLowerCase m) term then Inr True
          else (case materialDescription item of
                  Str d \<Rightarrow> Inr (str_includes (toLowerCase d) term)
                | _ \<Rightarrow> Inl TypeError)
      | _ \<Rightarrow> Inl TypeError)"

definition baseFilteredInventory :: "state \<Rightarrow> error + MaterialSummary list" where
  "baseFilteredInventory st =
     (let data = inventoryData st;
          term = toLowerCase (searchTerm st);
          f1 = (if showLowStockOnly st
                then filter (\<lambda>item. num_le (balance item) lowStockThreshold) data else data);
          f2 = (case movementTypeFilter st of
                  Filter101 \<Rightarrow> filter (\<lambda>item. num_less (Fin 0) (totalIn item)) f1
                | Filter201 \<Rightarrow> filter (\<lambda>item. num_less (Fin 0) (totalOut item)) f1
                | FilterAll \<Rightarrow> f1)
      in if term = [] then Inr f2 else filterE (matchesTerm term) f2)"

definition compareItems ::
  "env \<Rightarrow> sortableColumn \<times> sortDirection \<Rightarrow> MaterialSummary \<Rightarrow> MaterialSummary \<Rightarrow> jsnum" where
  "compareItems E config a b =
     (let column = (\<lambda>item. case fst config of
                       ColMaterialDescription \<Rightarrow> materialDescription item
                     | ColBalance \<Rightarrow> Num (balance item));
          comparison = (case (column a, column b) of
                          (Str x, Str y) \<Rightarrow> Fin (of_int (localeCompare E x y))
                        | (Num x, Num y) \<Rightarrow> num_sub x y
                        | _ \<Rightarrow> Fin 0)
      in if snd config = Asc then comparison else num_neg comparison)"

definition sortedInventory :: "env \<Rightarrow> state \<Rightarrow> error + MaterialSummary list" where
  "sortedInventory E st =
     (case baseFilteredInventory st of
        Inl e \<Rightarrow> Inl e
      | Inr data \<Rightarrow> Inr (Array_sort (compareItems E (sortConfig st)) data))"

definition clampIndex :: "int \<Rightarrow> jsnum \<Rightarrow> int" where
  \<comment> \<open>a bound of \<open>slice\<close> on an array of length \<open>len\<close>: the bound is truncated to a
      whole number (NaN is 0, the infinities stay), a negative one counts from the
      end, and the result is kept between 0 and \<open>len\<close>\<close>
  "clampIndex len x = (case x of
       NaN \<Rightarrow> 0
     | PInf \<Rightarrow> len
     | NInf \<Rightarrow> 0
     | Fin r \<Rightarrow>
         (let i = (if 0 \<le> r then \<lfloor>r\<rfloor> else \<lceil>r\<rceil>)
          in if i < 0 then max (len + i) 0 else min i len))"

definition slice :: "'a list \<Rightarrow> jsnum \<Rightarrow> jsnum \<Rightarrow> 'a list" where
  \<comment> \<open>\<open>Array.prototype.slice(start, stop)\<close>\<close>
  "slice xs start stop =
     (let len = int (length xs);
          k = clampIndex len start;
          final = clampIndex len stop
      in take (nat (final - k)) (drop (nat k) xs))"

definition paginatedInventory :: "env \<Rightarrow> state \<Rightarrow> error + MaterialSummary list" where
  "paginatedInventory E st =
     (case sortedInventory E st of
        Inl e \<Rightarrow> Inl e
      | Inr data \<Rightarrow>
          (let page = currentPage st;
               startIndex = num_mul (num_sub page (Fin 1)) (Fin (of_int itemsPerPage))
           in Inr (slice data startIndex (num_add startIndex (Fin (of_int itemsPerPage))))))"

text \<open>
  \<open>Math.ceil(length / itemsPerPage)\<close>: the length of an array is a whole number
  below \<open>2 ^ 32\<close>, hence a binary64 number, and its quotient by 12 is rounded to
  binary64 before the ceiling is taken.
\<close>

definition totalPages :: "state \<Rightarrow> error + jsnum" where
  "totalPages st =
     (case baseFilteredInventory st of
        Inl e \<Rightarrow> Inl e
      | Inr data \<Rightarrow> Inr (Math_ceil (round64 (of_nat (length data) / of_int itemsPerPage))))"

section \<open>Pagination handlers\<close>

definition goToPage :: "state \<Rightarrow> jsnum \<Rightarrow> error + state" where
  \<comment> \<open>\<open>if (page > 0 && page <= this.totalPages()) this.currentPage.set(page)\<close>\<close>
  "goToPage st page =
     (if num_less (Fin 0) page
      then (case totalPages st of
              Inl e \<Rightarrow> Inl e
            | Inr n \<Rightarrow> Inr (if num_le page n then st\<lparr> currentPage := page \<rparr> else st))
      else Inr st)"

definition nextPage :: "state \<Rightarrow> error + state" where
  "nextPage st = goToPage st (num_add (currentPage st) (Fin 1))"

definition prevPage :: "state \<Rightarrow> error + state" where
  "prevPage st = goToPage st (num_sub (currentPage st) (Fin 1))"

section \<open>Loading\<close>

text \<open>
  \<^verbatim>\<open>InventoryService.getInventoryData\<close> emits the response of the HTTP request, or
  fails with its own error when the request fails.
\<close>

datatype httpResult = HttpResponse InventoryResponse | HttpFailure

definition getInventoryData :: "httpResult \<Rightarrow> error + InventoryResponse" where
  "getInventoryData r = (case r of
       HttpResponse response \<Rightarrow> Inr response
     | HttpFailure \<Rightarrow> Inl (Error
         ''Failed to load inventory data. Please check the API endpoint and network connection.''))"

definition message :: "env \<Rightarrow> error \<Rightarrow> string" where
  "message E e = (case e of Error m \<Rightarrow> m | TypeError \<Rightarrow> typeErrorMessage E)"

definition loadInventory :: "env \<Rightarrow> int \<Rightarrow> state \<Rightarrow> httpResult \<Rightarrow> state" where
  \<comment> \<open>\<open>now\<close> is the value of \<open>new Date()\<close> when the response arrives\<close>
  "loadInventory E now st r =
     (let st1 = st\<lparr> loading := True, error := None \<rparr>
      in case getInventoryData r of
           Inr response \<Rightarrow>
             (case processData E response of
                Inr processedData \<Rightarrow>
                  st1\<lparr> inventoryData := processedData, lastUpdated := Some now,
                       loading := False \<rparr>
              | Inl e \<Rightarrow> st1\<lparr> error := Some (message E e), loading := False \<rparr>)
         | Inl err \<Rightarrow>
             st1\<lparr> error := Some (if message E err \<noteq> [] then message E err
                                  else ''An unknown error occurred.''),
                  loading := False \<rparr>)"

section \<open>The detailed transaction view\<close>

record detailedView =
  viewKind :: viewType
  title :: string
  transactions :: "Transaction list"
  totalQuantity :: jsnum

definition dateBound :: "env \<Rightarrow> (int \<Rightarrow> int) \<Rightarrow> string \<Rightarrow> jsnum option" where
  \<comment> \<open>\<open>s ? new Date(s) : null\<close>, then \<open>setHours\<close> on it when it is not null;
      an invalid date stays invalid\<close>
  "dateBound E adjust s =
     (if s = [] then None
      else Some (case dateParse E s of None \<Rightarrow> NaN | Some t \<Rightarrow> Fin (of_int (adjust t))))"

definition inRange :: "env \<Rightarrow> jsnum option \<Rightarrow> jsnum option \<Rightarrow> Transaction \<Rightarrow> bool" where
  "inRange E from to tx =
     (let txDate = getTime E (postingDate tx)
      in if (case from of Some f \<Rightarrow> num_less txDate f | None \<Rightarrow> False) then False
         else if (case to of Some t \<Rightarrow> num_less t txDate | None \<Rightarrow> False) then False
         else True)"

definition detailedTransactionsView :: "env \<Rightarrow> state \<Rightarrow> detailedView option" where
  "detailedTransactionsView E st =
     (case (detailedViewType st, selectedMaterial st) of
        (Some ty, Some m) \<Rightarrow>
          (let from = dateBound E (startOfDay E) (dateFrom st);
               to = dateBound E (endOfDay E) (dateTo st);
               txs = (if ty = ViewIn then inTransactions m else outTransactions m);
               filteredTransactions = filter (inRange E from to) txs
           in Some \<lparr> viewKind = ty,
                     title = (if ty = ViewIn then ''Receipt Details'' else ''Issue Details''),
                     transactions = filteredTransactions,
                     totalQuantity = foldl num_add (Fin 0) (map quantity filteredTransactions) \<rparr>)
      | _ \<Rightarrow> None)"

section \<open>CSV export\<close>

text \<open>
  A number in an array is written by \<open>join\<close> through Number::toString, which gives the
  shortest digits that convert back to the number. For a whole number below \<open>2\<^sup>5\<^sup>3\<close>
  those are its decimal digits; the rendering of the other finite values (fractions,
  and the whole numbers from \<open>2\<^sup>5\<^sup>3\<close> on) is the field \<open>otherNumberToString\<close> of the
  environment.
\<close>

fun digitsOf :: "nat \<Rightarrow> string" where
  "digitsOf n =
     (if n < 10 then [char_of (48 + n)] else digitsOf (n div 10) @ [char_of (48 + n mod 10)])"

declare digitsOf.simps [simp del]

definition numToString :: "env \<Rightarrow> jsnum \<Rightarrow> string" where
  "numToString E n = (case n of
       NaN \<Rightarrow> ''NaN''
     | PInf \<Rightarrow> ''Infinity''
     | NInf \<Rightarrow> ''-Infinity''
     | Fin r \<Rightarrow>
         if r = of_int \<lfloor>r\<rfloor> \<and> \<bar>r\<bar> < 2 ^ 53
         then (if r < 0 then ''-'' else []) @ digitsOf (nat \<bar>\<lfloor>r\<rfloor>\<bar>)
         else otherNumberToString E r)"

definition ToString :: "env \<Rightarrow> jsval \<Rightarrow> string" where
  \<comment> \<open>how \<open>Array.prototype.join\<close> writes an element: nothing for \<open>undefined\<close>\<close>
  "ToString E v = (case v of Undefined \<Rightarrow> [] | Str s \<Rightarrow> s | Num n \<Rightarrow> numToString E n)"

definition escapeQuotes :: "string \<Rightarrow> string" where
  \<comment> \<open>\<open>s.replace(/"/g, '""')\<close>\<close>
  "escapeQuotes s = concat (map (\<lambda>c. if c = CHR 0x22 then [CHR 0x22, CHR 0x22] else [c]) s)"

definition quoted :: "string \<Rightarrow> string" where
  "quoted s = CHR 0x22 # escapeQuotes s @ [CHR 0x22]"

definition safe :: "jsval \<Rightarrow> error + string" where
  \<comment> \<open>\<open>(str || '').replace(...)\<close> between quotes; a number has no method \<open>replace\<close>\<close>
  "safe v = (case orElse v (Str []) of Str s \<Rightarrow> Inr (quoted s) | _ \<Rightarrow> Inl TypeError)"

definition inventoryHeaders :: "string list" where
  "inventoryHeaders =
     [''Material'', ''MaterialDescription'', ''TotalIn'', ''TotalOut'', ''Balance'', ''Unit'']"

definition inventoryLine :: "env \<Rightarrow> MaterialSummary \<Rightarrow> error + string" where
  "inventoryLine E item =
     (case materialDescription item of
        Str d \<Rightarrow>
          Inr (join '','' [ToString E (material item), quoted d,
                           numToString E (totalIn item), numToString E (totalOut item),
                           numToString E (balance item), ToString E (unit item)])
      | _ \<Rightarrow> Inl TypeError)"

text \<open>
  The exports return the text handed to the \<open>Blob\<close>; \<open>None\<close> is the early return,
  where nothing is downloaded.
\<close>

definition exportInventoryToCsv :: "env \<Rightarrow> state \<Rightarrow> error + string option" where
  "exportInventoryToCsv E st =
     (case sortedInventory E st of
        Inl e \<Rightarrow> Inl e
      | Inr dataToExport \<Rightarrow>
          if dataToExport = [] then Inr None
          else (case mapE (inventoryLine E) dataToExport of
                  Inl e \<Rightarrow> Inl e
                | Inr lines \<Rightarrow>
                    Inr (Some (join [CHR 0x0A] (join '','' inventoryHeaders # lines)))))"

definition transactionHeaders :: "string list" where
  "transactionHeaders =
     [''PostingDate'', ''Quantity'', ''User'', ''CostCenter'', ''Document'', ''Reservation'',
      ''HeaderText'', ''Text'']"

definition transactionLine :: "env \<Rightarrow> viewType \<Rightarrow> Transaction \<Rightarrow> error + string" where
  "transactionLine E ty tx =
     (let qty = (if ty = ViewIn then quantity tx else num_neg (quantity tx))
      in case mapE safe [user tx, costCenter tx, document tx, reservation tx,
                         headerText tx, freeText tx] of
           Inl e \<Rightarrow> Inl e
         | Inr texts \<Rightarrow>
             Inr (join '','' ([ToString E (postingDate tx), numToString E qty] @ texts)))"

definition exportToCsv :: "env \<Rightarrow> state \<Rightarrow> error + string option" where
  "exportToCsv E st =
     (case detailedTransactionsView E st of
        None \<Rightarrow> Inr None
      | Some details \<Rightarrow>
          if transactions details = [] then Inr None
          else (case mapE (transactionLine E (viewKind details)) (transactions details) of
                  Inl e \<Rightarrow> Inl e
                | Inr lines \<Rightarrow>
                    Inr (Some (join [CHR 0x0A] (join '','' transactionHeaders # lines)))))"

section \<open>The statements of the specification\<close>

text \<open>
  The definitions of this section follow the words of the specification, for comparison
  with the program.
\<close>

definition isFinite :: "jsnum \<Rightarrow> bool" where
  "isFinite n = (case n of Fin r \<Rightarrow> True | _ \<Rightarrow> False)"

definition specValid :: "string list \<Rightarrow> cell list \<Rightarrow> bool" where
  \<comment> \<open>``its Movement Type cell (trimmed) is exactly "101" or "201" and its Material cell
      is non-empty and its Quantity cell parses to a finite number''\<close>
  "specValid hs row =
     ((rowMovement hs row = ''101'' \<or> rowMovement hs row = ''201'')
      \<and> rowMaterial hs row \<noteq> Undefined \<and> rowMaterial hs row \<noteq> Str []
      \<and> isFinite (rowQuantity hs row))"

definition specDescription :: "string list \<Rightarrow> jsval \<Rightarrow> cell list list \<Rightarrow> jsval" where
  \<comment> \<open>``the first non-empty Material Description cell seen among that material's valid
      rows, or a placeholder''\<close>
  "specDescription hs k rs =
     (case filter (\<lambda>r. truthy (cellAt r (indexOf hs ''Material Description'')))
             (materialRows hs k rs) of
        [] \<Rightarrow> Str ''No Description''
      | r # _ \<Rightarrow> cellAt r (indexOf hs ''Material Description''))"

definition sortedByDateDesc :: "env \<Rightarrow> Transaction list \<Rightarrow> bool" where
  \<comment> \<open>``sorted in descending order of posting date'': no transaction is dated before
      one that comes after it in the list\<close>
  "sortedByDateDesc E ts =
     sorted_wrt (\<lambda>a b. \<not> num_less (getTime E (postingDate a)) (getTime E (postingDate b))) ts"

definition specInventoryLine :: "env \<Rightarrow> MaterialSummary \<Rightarrow> string" where
  \<comment> \<open>``every string field is double-quoted, every numeric field is unquoted, fields
      joined by commas''\<close>
  "specInventoryLine E item =
     join '','' [quoted (ToString E (material item)),
                 quoted (ToString E (materialDescription item)),
                 numToString E (totalIn item), numToString E (totalOut item),
                 numToString E (balance item), quoted (ToString E (unit item))]"

fun unescape :: "string \<Rightarrow> string option" where
  \<comment> \<open>reading the inside of a quoted field up to its closing quote\<close>
  "unescape [] = None"
| "unescape (c # cs) =
     (if c = CHR 0x22
      then (case cs of
              [] \<Rightarrow> Some []
            | d # ds \<Rightarrow> if d = CHR 0x22 then map_option ((#) CHR 0x22) (unescape ds) else None)
      else map_option ((#) c) (unescape cs))"

definition unquote :: "string \<Rightarrow> string option" where
  \<comment> \<open>reading a double-quoted field back: a doubled quote stands for one quote\<close>
  "unquote s = (case s of [] \<Rightarrow> None | c # cs \<Rightarrow> if c = CHR 0x22 then unescape cs else None)"

section \<open>Example inputs\<close>

text \<open>
  An environment for the examples: a one-entry cost-centre table, \<open>Date.parse\<close> on the
  two dates the examples use, strings compared by code units, days in UTC.
\<close>

fun compareCodeUnits :: "string \<Rightarrow> string \<Rightarrow> int" where
  "compareCodeUnits [] [] = 0"
| "compareCodeUnits [] (b # bs) = - 1"
| "compareCodeUnits (a # as) [] = 1"
| "compareCodeUnits (a # as) (b # bs) =
     (if (of_char a :: int) < of_char b then - 1
      else if (of_char b :: int) < of_char a then 1
      else compareCodeUnits as bs)"

definition exampleEnv :: env where
  "exampleEnv =
     \<lparr> costCenterMap = (\<lambda>code. if code = ''4100'' then Some ''Maintenance'' else None),
       dateParse = (\<lambda>s. if s = ''2024-01-01'' then Some 1704067200000
                         else if s = ''2024-06-01'' then Some 1717200000000 else None),
       localeCompare = compareCodeUnits,
       otherNumberToString = (\<lambda>r. []),
       startOfDay = (\<lambda>t. t - t mod 86400000),
       endOfDay = (\<lambda>t. t - t mod 86400000 + 86399999),
       typeErrorMessage = ''not a function'' \<rparr>"

definition exampleHeaders :: "string list" where
  "exampleHeaders = [''Material'', ''Material Description'', ''Quantity'', ''Unit of Entry'',
                     ''Movement Type'', ''Posting Date'']"

definition exampleTransaction :: "jsval \<Rightarrow> jsnum \<Rightarrow> Transaction" where
  "exampleTransaction d q =
     \<lparr> postingDate = d, quantity = q, user = Str [], costCenter = Str [],
       reservation = Str [], document = Str [], headerText = Str [], freeText = Str [] \<rparr>"

text \<open>The example of the specification: a receipt of 10, an issue of 4, a malformed row.\<close>

definition boltResponse :: InventoryResponse where
  "boltResponse =
     \<lparr> headers = exampleHeaders,
       rows = [[CStr ''M1'', CStr ''Bolt'', CNum (Fin 10), CStr ''EA'', CStr ''101''],
               [CStr ''M1'', CStr ''Bolt'', CNum (Fin 4), CStr ''EA'', CStr ''201''],
               [CStr ''M1'', CStr ''Bolt'', CStr ''x'', CStr ''EA'', CStr ''101'']] \<rparr>"

definition boltSummary :: MaterialSummary where
  "boltSummary =
     \<lparr> materialDescription = Str ''Bolt'', totalIn = Fin 10, totalOut = Fin 4,
       balance = Fin 6, unit = Str ''EA'',
       inTransactions = [exampleTransaction Undefined (Fin 10)],
       outTransactions = [exampleTransaction Undefined (Fin 4)],
       material = Str ''M1'' \<rparr>"

text \<open>A receipt with a negative quantity.\<close>

definition negativeResponse :: InventoryResponse where
  "negativeResponse =
     \<lparr> headers = exampleHeaders,
       rows = [[CStr ''M1'', CStr ''Bolt'', CNum (Fin (- 5)), CStr ''EA'', CStr ''101'']] \<rparr>"

definition negativeSummary :: MaterialSummary where
  "negativeSummary =
     \<lparr> materialDescription = Str ''Bolt'', totalIn = Fin (- 5), totalOut = Fin 0,
       balance = Fin (- 5), unit = Str ''EA'',
       inTransactions = [exampleTransaction Undefined (Fin 5)],
       outTransactions = [],
       material = Str ''M1'' \<rparr>"

text \<open>A receipt whose quantity cell is the string \<open>Infinity\<close>.\<close>

definition infinityRow :: "cell list" where
  "infinityRow = [CStr ''M1'', CStr ''Bolt'', CStr ''Infinity'', CStr ''EA'', CStr ''101'']"

definition infinitySummary :: MaterialSummary where
  "infinitySummary =
     \<lparr> materialDescription = Str ''Bolt'', totalIn = PInf, totalOut = Fin 0,
       balance = PInf, unit = Str ''EA'',
       inTransactions = [exampleTransaction Undefined PInf],
       outTransactions = [],
       material = Str ''M1'' \<rparr>"

text \<open>Two receipts of one material; only the second has a description.\<close>

definition lateDescriptionResponse :: InventoryResponse where
  "lateDescriptionResponse =
     \<lparr> headers = exampleHeaders,
       rows = [[CStr ''M1'', CStr [], CNum (Fin 1), CStr ''EA'', CStr ''101''],
               [CStr ''M1'', CStr ''Bolt'', CNum (Fin 2), CStr ''EA'', CStr ''101'']] \<rparr>"

definition lateDescriptionSummary :: MaterialSummary where
  "lateDescriptionSummary =
     \<lparr> materialDescription = Str ''No Description'', totalIn = Fin 3, totalOut = Fin 0,
       balance = Fin 3, unit = Str ''EA'',
       inTransactions = [exampleTransaction Undefined (Fin 1),
                         exampleTransaction Undefined (Fin 2)],
       outTransactions = [],
       material = Str ''M1'' \<rparr>"

text \<open>Three receipts: January, no posting date, June.\<close>

definition missingDateResponse :: InventoryResponse where
  "missingDateResponse =
     \<lparr> headers = exampleHeaders,
       rows = [[CStr ''M1'', CStr ''Bolt'', CNum (Fin 1), CStr ''EA'', CStr ''101'',
                CStr ''2024-01-01''],
               [CStr ''M1'', CStr ''Bolt'', CNum (Fin 2), CStr ''EA'', CStr ''101''],
               [CStr ''M1'', CStr ''Bolt'', CNum (Fin 3), CStr ''EA'', CStr ''101'',
                CStr ''2024-06-01'']] \<rparr>"

definition missingDateSummary :: MaterialSummary where
  "missingDateSummary =
     \<lparr> materialDescription = Str ''Bolt'', totalIn = Fin 6, totalOut = Fin 0,
       balance = Fin 6, unit = Str ''EA'',
       inTransactions = [exampleTransaction (Str ''2024-01-01'') (Fin 1),
                         exampleTransaction Undefined (Fin 2),
                         exampleTransaction (Str ''2024-06-01'') (Fin 3)],
       outTransactions = [],
       material = Str ''M1'' \<rparr>"

text \<open>Two dated receipts, the earlier one first.\<close>

definition datedResponse :: InventoryResponse where
  "datedResponse =
     \<lparr> headers = exampleHeaders,
       rows = [[CStr ''M1'', CStr ''Bolt'', CNum (Fin 1), CStr ''EA'', CStr ''101'',
                CStr ''2024-01-01''],
               [CStr ''M1'', CStr ''Bolt'', CNum (Fin 3), CStr ''EA'', CStr ''101'',
                CStr ''2024-06-01'']] \<rparr>"

definition datedSummary :: MaterialSummary where
  "datedSummary =
     \<lparr> materialDescription = Str ''Bolt'', totalIn = Fin 4, totalOut = Fin 0,
       balance = Fin 4, unit = Str ''EA'',
       inTransactions = [exampleTransaction (Str ''2024-06-01'') (Fin 3),
                         exampleTransaction (Str ''2024-01-01'') (Fin 1)],
       outTransactions = [],
       material = Str ''M1'' \<rparr>"

text \<open>A state that holds the summary of the specification's example.\<close>

definition exampleState :: state where
  "exampleState =
     \<lparr> inventoryData = [boltSummary], loading = False, error = None, lastUpdated = None,
       theme = Light, searchTerm = [], movementTypeFilter = FilterAll,
       sortConfig = (ColMaterialDescription, Asc), showLowStockOnly = False,
       currentPage = Fin 1, selectedMaterial = Some boltSummary,
       detailedViewType = Some ViewOut, dateFrom = [], dateTo = [],
       dashboardFilters = \<lparr> filterDate = [], filterMovement = MoveAll, filterUser = [],
                            filterCostCenter = [], filterDetails = [] \<rparr> \<rparr>"

text \<open>A receipt whose quantity cell holds two spaces.\<close>

definition blankQuantityRow :: "cell list" where
  "blankQuantityRow = [CStr ''M1'', CStr ''Bolt'', CStr ''  '', CStr ''EA'', CStr ''101'']"

definition blankQuantitySummary :: MaterialSummary where
  "blankQuantitySummary =
     \<lparr> materialDescription = Str ''Bolt'', totalIn = Fin 0, totalOut = Fin 0,
       balance = Fin 0, unit = Str ''EA'',
       inTransactions = [exampleTransaction Undefined (Fin 0)],
       outTransactions = [],
       material = Str ''M1'' \<rparr>"

text \<open>A receipt with a blank quantity whose Material cell is the number 0.\<close>

definition zeroMaterialRow :: "cell list" where
  "zeroMaterialRow = [CNum (Fin 0), CStr ''Bolt'', CStr [], CStr ''EA'', CStr ''101'']"

text \<open>
  Thirteen items, hence two pages, and the page number that \<open>13 / 12\<close> denotes in
  binary64.
\<close>

definition thirteenItems :: state where
  "thirteenItems = exampleState\<lparr> inventoryData := replicate 13 boltSummary \<rparr>"

definition thirteenTwelfths :: jsnum where
  "thirteenTwelfths = Fin (4878899596318037 / 4503599627370496)"

text \<open>
  A summary whose description is a number, and a search term that the material does
  not contain: the search calls \<open>toLowerCase\<close> on the number.
\<close>

definition numericDescriptionState :: state where
  "numericDescriptionState =
     exampleState\<lparr> inventoryData := [boltSummary\<lparr> materialDescription := Num (Fin 7) \<rparr>],
                    searchTerm := ''x'' \<rparr>"

section \<open>Arithmetic of binary64 numbers\<close>

lemma pow2_pos: "0 < pow2 e"
  by (simp add: pow2_def)

lemma pow2_powi: "pow2 e = 2 powi e"
  by (simp add: pow2_def power_int_def inverse_eq_divide power_one_over)

lemma pow2_mono: "a \<le> b \<Longrightarrow> pow2 a \<le> pow2 b"
  by (simp add: pow2_powi power_int_increasing)

lemma roundHalfEven_nonneg: "0 \<le> x \<Longrightarrow> 0 \<le> roundHalfEven x"
  by (auto simp: roundHalfEven_def Let_def)

lemma roundHalfEven_pos: 
  assumes "1 / 2 < x" shows "1 \<le> roundHalfEven x"
proof (cases "1 \<le> x")
  case True
  then have "1 \<le> \<lfloor>x\<rfloor>" by simp
  then show ?thesis by (auto simp: roundHalfEven_def Let_def)
next
  case False
  with assms have f: "\<lfloor>x\<rfloor> = 0" by (simp add: floor_eq_iff)
  with assms show ?thesis by (auto simp: roundHalfEven_def Let_def)
qed

lemma round64_nonneg: "0 \<le> r \<Longrightarrow> num_le (Fin 0) (round64 r)"
  by (auto simp: round64_def Let_def pow2_pos roundHalfEven_nonneg less_imp_le)

lemma round64_nonpos: 
  assumes "r \<le> 0" shows "\<not> num_less (Fin 0) (round64 r)"
proof (cases "r = 0")
  case True
  then show ?thesis by (simp add: round64_def)
next
  case False
  define q where "q = pow2 (max (ilog2 \<bar>r\<bar>) (- 1022) - 52)"
  define v where "v = of_int (roundHalfEven (\<bar>r\<bar> / q)) * q"
  have "0 < q" by (simp add: q_def pow2_pos)
  then have "0 \<le> \<bar>r\<bar> / q" by simp
  then have "0 \<le> roundHalfEven (\<bar>r\<bar> / q)" by (rule roundHalfEven_nonneg)
  with \<open>0 < q\<close> have "0 \<le> v" by (simp add: v_def)
  have "round64 r = (if pow2 1024 \<le> v then NInf else Fin (- v))"
    using False assms by (simp add: round64_def Let_def q_def v_def)
  with \<open>0 \<le> v\<close> show ?thesis by simp
qed

lemma ilog2_le:
  assumes "0 < a" shows "pow2 (ilog2 a) \<le> a"
proof -
  obtain p q where pq: "quotient_of a = (p, q)" by (cases "quotient_of a")
  then have a: "a = of_int p / of_int q" and q: "0 < q"
    by (simp_all add: quotient_of_div quotient_of_denom_pos)
  with assms have p: "0 < p" by (simp add: zero_less_divide_iff)
  define k where "k = bitlen p - bitlen q"
  have bp: "1 \<le> bitlen p" and bq: "1 \<le> bitlen q"
    using p q bitlen_eq_zero_iff[of p] bitlen_eq_zero_iff[of q] bitlen_nonneg[of p] bitlen_nonneg[of q]
    by linarith+
  have "(2::int) ^ nat (bitlen p - 1) \<le> p" and "q < 2 ^ nat (bitlen q)"
    using bitlen_bounds[OF p] bitlen_bounds[OF q] by simp_all
  then have 1: "(2::rat) ^ nat (bitlen p - 1) \<le> of_int p" and 2: "(of_int q :: rat) < 2 ^ nat (bitlen q)"
    by (metis of_int_le_iff of_int_numeral of_int_power, metis of_int_less_iff of_int_numeral of_int_power)
  have "(2::rat) ^ nat (bitlen p - 1) / 2 ^ nat (bitlen q) < of_int p / of_int q"
    using 1 2 q by (intro frac_less2) simp_all
  moreover have "pow2 (k - 1) = (2::rat) ^ nat (bitlen p - 1) / 2 ^ nat (bitlen q)"
  proof -
    have "k - 1 = (bitlen p - 1) - bitlen q" by (simp add: k_def)
    then have "pow2 (k - 1) = 2 powi (bitlen p - 1) / 2 powi (bitlen q)"
      by (simp add: pow2_powi power_int_diff)
    then show ?thesis using bp bq by (simp add: power_int_def)
  qed
  ultimately have lt: "pow2 (k - 1) < a" by (simp add: a)
  have "ilog2 a = (if pow2 k \<le> a then k else k - 1)"
    by (simp add: ilog2_def pq k_def Let_def)
  with lt show ?thesis by (cases "pow2 k \<le> a") simp_all
qed

lemma round64_pos: 
  assumes "1 \<le> r" shows "num_less (Fin 0) (round64 r)"
proof -
  define e where "e = max (ilog2 \<bar>r\<bar>) (- 1022)"
  define q where "q = pow2 (e - 52)"
  define v where "v = of_int (roundHalfEven (\<bar>r\<bar> / q)) * q"
  have r: "0 < r" "\<bar>r\<bar> = r" "r \<noteq> 0" using assms by simp_all
  have "0 < q" by (simp add: q_def pow2_pos)
  have "q \<le> r"
  proof (cases "e = ilog2 r")
    case True
    have "pow2 (e - 52) \<le> pow2 (ilog2 r)" using True by (intro pow2_mono) simp
    also have "\<dots> \<le> r" using r by (intro ilog2_le)
    finally show ?thesis by (simp add: q_def)
  next
    case False
    then have "e = - 1022" by (auto simp: e_def r max_def split: if_splits)
    then have "q \<le> pow2 0" unfolding q_def by (intro pow2_mono) simp
    then show ?thesis using assms by (simp add: pow2_def)
  qed
  with \<open>0 < q\<close> have "1 \<le> r / q" by simp
  have "(1::rat) / 2 < 1" by simp
  also note \<open>1 \<le> r / q\<close>
  finally have "1 \<le> roundHalfEven (r / q)" by (rule roundHalfEven_pos)
  with \<open>0 < q\<close> have "0 < v" by (simp add: v_def r)
  have "round64 r = (if pow2 1024 \<le> v then PInf else Fin v)"
    using r by (simp add: round64_def Let_def q_def v_def e_def)
  with \<open>0 < v\<close> show ?thesis by simp
qed

lemma num_add_nonneg:
  "num_le (Fin 0) a \<Longrightarrow> num_le (Fin 0) b \<Longrightarrow> num_le (Fin 0) (num_add a b)"
  by (cases a; cases b) (auto simp: round64_nonneg)

lemma Math_abs_nonneg: "\<not> isNaN x \<Longrightarrow> num_le (Fin 0) (Math_abs x)"
  by (cases x) auto

lemma roundHalfEven_of_int: "roundHalfEven (of_int m) = m"
  by (simp add: roundHalfEven_def)

lemma round64_of_int:
  assumes "\<bar>n\<bar> < 2 ^ 53" shows "round64 (of_int n) = Fin (of_int n)"
proof (cases "n = 0")
  case True
  then show ?thesis by (simp add: round64_def)
next
  case False
  define a :: rat where "a = \<bar>of_int n\<bar>"
  define e where "e = max (ilog2 a) (- 1022)"
  define q where "q = pow2 (e - 52)"
  have a1: "1 \<le> a" using False by (simp add: a_def flip: of_int_abs)
  have a2: "a < pow2 53" using assms unfolding a_def pow2_def
    by (simp flip: of_int_abs)
  have "pow2 (ilog2 a) \<le> a" using a1 by (intro ilog2_le) simp
  with a2 have "pow2 (ilog2 a) < pow2 53" by simp
  then have "ilog2 a < 53" using pow2_mono[of 53 "ilog2 a"] by (cases "ilog2 a < 53") auto
  then have e: "e \<le> 52" by (simp add: e_def)
  then have q: "q = 1 / 2 ^ nat (52 - e)" by (simp add: q_def pow2_def)
  have "a / q = of_int (\<bar>n\<bar> * 2 ^ nat (52 - e))"
    by (simp add: q a_def)
  then have "roundHalfEven (a / q) = \<bar>n\<bar> * 2 ^ nat (52 - e)"
    by (simp only: roundHalfEven_of_int)
  then have v: "of_int (roundHalfEven (a / q)) * q = a"
    by (simp add: q a_def)
  have "pow2 53 \<le> pow2 1024" by (intro pow2_mono) simp
  with a2 have "\<not> pow2 1024 \<le> a" by simp
  then have "round64 (of_int n) = Fin (if 0 < (of_int n :: rat) then a else - a)"
    using False v by (simp add: round64_def Let_def a_def[symmetric] e_def[symmetric] q_def[symmetric])
  then show ?thesis by (auto simp: a_def)
qed

lemma pow2_strict_mono: "a < b \<Longrightarrow> pow2 a < pow2 b"
  by (simp add: pow2_powi power_int_strict_increasing)

lemma pow2_add: "pow2 (a + b) = pow2 a * pow2 b"
  by (simp add: pow2_powi power_int_add)

lemma pow2_diff: "pow2 (a - b) = pow2 a / pow2 b"
  by (simp add: pow2_powi power_int_diff)

lemma pow2_nat: "0 \<le> k \<Longrightarrow> pow2 k = of_int (2 ^ nat k)"
  by (simp add: pow2_def)

lemma ilog2_upper:
  assumes "0 < a" shows "a < pow2 (ilog2 a + 1)"
proof -
  obtain p q where pq: "quotient_of a = (p, q)" by (cases "quotient_of a")
  then have a: "a = of_int p / of_int q" and q: "0 < q"
    by (simp_all add: quotient_of_div quotient_of_denom_pos)
  with assms have p: "0 < p" by (simp add: zero_less_divide_iff)
  define k where "k = bitlen p - bitlen q"
  have bp: "1 \<le> bitlen p" and bq: "1 \<le> bitlen q"
    using p q bitlen_eq_zero_iff[of p] bitlen_eq_zero_iff[of q] bitlen_nonneg[of p] bitlen_nonneg[of q]
    by linarith+
  have "p < 2 ^ nat (bitlen p)" and "(2::int) ^ nat (bitlen q - 1) \<le> q"
    using bitlen_bounds[OF p] bitlen_bounds[OF q] by simp_all
  then have 1: "(of_int p :: rat) < 2 ^ nat (bitlen p)" and 2: "(2::rat) ^ nat (bitlen q - 1) \<le> of_int q"
    by (metis of_int_less_iff of_int_numeral of_int_power, metis of_int_le_iff of_int_numeral of_int_power)
  have "of_int p / of_int q < (2::rat) ^ nat (bitlen p) / 2 ^ nat (bitlen q - 1)"
    using 1 2 p q by (intro frac_less) simp_all
  moreover have "pow2 (k + 1) = (2::rat) ^ nat (bitlen p) / 2 ^ nat (bitlen q - 1)"
  proof -
    have "k + 1 = bitlen p - (bitlen q - 1)" by (simp add: k_def)
    then have "pow2 (k + 1) = pow2 (bitlen p - (bitlen q - 1))" by (simp only:)
    also have "\<dots> = pow2 (bitlen p) / pow2 (bitlen q - 1)" by (rule pow2_diff)
    finally show ?thesis using bp bq by (simp add: pow2_def)
  qed
  ultimately have lt: "a < pow2 (k + 1)" by (simp add: a)
  have "ilog2 a = (if pow2 k \<le> a then k else k - 1)"
    by (simp add: ilog2_def pq k_def Let_def)
  with lt show ?thesis by (cases "pow2 k \<le> a") simp_all
qed

lemma ilog2_unique:
  assumes "pow2 k \<le> a" and "a < pow2 (k + 1)" shows "ilog2 a = k"
proof -
  have a: "0 < a" using assms(1) pow2_pos[of k] by simp
  have "pow2 (ilog2 a) < pow2 (k + 1)" using ilog2_le[OF a] assms(2) by simp
  then have "ilog2 a < k + 1" using pow2_mono[of "k + 1" "ilog2 a"] by (cases "ilog2 a < k + 1") auto
  moreover have "pow2 k < pow2 (ilog2 a + 1)" using ilog2_upper[OF a] assms(1) by simp
  then have "k < ilog2 a + 1" using pow2_mono[of "ilog2 a + 1" k] by (cases "k < ilog2 a + 1") auto
  ultimately show ?thesis by simp
qed

lemma roundHalfEven_le: "x \<le> of_int N \<Longrightarrow> roundHalfEven x \<le> N"
proof -
  assume a: "x \<le> of_int N"
  show ?thesis
  proof (cases "x = of_int N")
    case True
    then show ?thesis by (simp add: roundHalfEven_of_int)
  next
    case False
    with a have "x < of_int N" by simp
    then have "\<lfloor>x\<rfloor> < N" by (simp add: floor_less_iff)
    then show ?thesis by (auto simp: roundHalfEven_def Let_def)
  qed
qed

lemma round64_exact:
  assumes n: "0 < n" and e: "- 1022 \<le> e" and le: "of_int n * pow2 (e - 52) \<le> pow2 (e + 1)"
    and fin: "of_int n * pow2 (e - 52) < pow2 1024"
  shows "round64 (of_int n * pow2 (e - 52)) = Fin (of_int n * pow2 (e - 52))"
    and "round64 (- (of_int n * pow2 (e - 52))) = Fin (- (of_int n * pow2 (e - 52)))"
proof -
  define v where "v = of_int n * pow2 (e - 52)"
  have vpos: "0 < v" using n pow2_pos[of "e - 52"] by (simp add: v_def)
  define e' where "e' = max (ilog2 v) (- 1022)"
  have "\<exists>m. v / pow2 (e' - 52) = of_int m"
  proof (cases "v = pow2 (e + 1)")
    case True
    then have "ilog2 v = e + 1"
      by (intro ilog2_unique) (simp_all add: pow2_strict_mono)
    then have "e' = e + 1" using e by (simp add: e'_def)
    then have "v / pow2 (e' - 52) = pow2 (e + 1) / pow2 (e - 51)" by (simp add: True)
    also have "\<dots> = pow2 52" by (simp flip: pow2_diff)
    also have "\<dots> = of_int (2 ^ 52)" by (simp add: pow2_def)
    finally show ?thesis by blast
  next
    case False
    with le have "v < pow2 (e + 1)" by (simp add: v_def)
    then have "pow2 (ilog2 v) < pow2 (e + 1)" using ilog2_le[OF vpos] by simp
    then have "ilog2 v < e + 1" using pow2_mono[of "e + 1" "ilog2 v"] by (cases "ilog2 v < e + 1") auto
    then have ee: "e' \<le> e" using e by (simp add: e'_def)
    have "v / pow2 (e' - 52) = of_int n * (pow2 (e - 52) / pow2 (e' - 52))" by (simp add: v_def)
    also have "pow2 (e - 52) / pow2 (e' - 52) = pow2 (e - e')" by (simp flip: pow2_diff)
    also have "pow2 (e - e') = of_int (2 ^ nat (e - e'))" using ee by (simp add: pow2_nat)
    finally have "v / pow2 (e' - 52) = of_int (n * 2 ^ nat (e - e'))" by simp
    then show ?thesis by blast
  qed
  then obtain m where m: "v / pow2 (e' - 52) = of_int m" by blast
  have "v = of_int m * pow2 (e' - 52)"
    using m pow2_pos[of "e' - 52"] by (simp add: field_simps)
  then have rt: "of_int (roundHalfEven (v / pow2 (e' - 52))) * pow2 (e' - 52) = v"
    unfolding m roundHalfEven_of_int by simp
  have nf: "\<not> pow2 1024 \<le> v" using fin by (simp add: v_def)
  have "round64 v = Fin v"
    using vpos rt nf by (simp add: round64_def Let_def e'_def[symmetric])
  moreover have "round64 (- v) = Fin (- v)"
    using vpos rt nf by (simp add: round64_def Let_def e'_def[symmetric])
  ultimately show "round64 (of_int n * pow2 (e - 52)) = Fin (of_int n * pow2 (e - 52))"
    and "round64 (- (of_int n * pow2 (e - 52))) = Fin (- (of_int n * pow2 (e - 52)))"
    by (simp_all add: v_def)
qed

lemma round64_idem:
  assumes "round64 r = Fin v" shows "round64 v = Fin v"
proof (cases "r = 0")
  case True
  with assms show ?thesis by (auto simp: round64_def)
next
  case False
  define a where "a = \<bar>r\<bar>"
  define e where "e = max (ilog2 a) (- 1022)"
  define q where "q = pow2 (e - 52)"
  define n where "n = roundHalfEven (a / q)"
  have apos: "0 < a" using False by (simp add: a_def)
  have qpos: "0 < q" by (simp add: q_def pow2_pos)
  have e: "- 1022 \<le> e" by (simp add: e_def)
  from assms False have fin: "\<not> pow2 1024 \<le> of_int n * q"
    and v: "v = (if 0 < r then of_int n * q else - (of_int n * q))"
    by (auto simp: round64_def Let_def a_def[symmetric] e_def[symmetric] q_def[symmetric] n_def[symmetric]
        split: if_splits)
  have n0: "0 \<le> n" unfolding n_def using apos qpos by (intro roundHalfEven_nonneg) simp
  have "a < pow2 (ilog2 a + 1)" using apos by (rule ilog2_upper)
  also have "\<dots> \<le> pow2 (e + 1)" by (intro pow2_mono) (simp add: e_def)
  finally have "a / q < pow2 (e + 1) / q" using qpos by (simp add: divide_strict_right_mono)
  also have "pow2 (e + 1) / q = pow2 53" by (simp add: q_def flip: pow2_diff)
  also have "pow2 53 = of_int (2 ^ 53)" by (simp add: pow2_def)
  finally have "n \<le> 2 ^ 53" unfolding n_def by (intro roundHalfEven_le) simp
  then have "(of_int n :: rat) \<le> of_int (2 ^ 53)" by (simp only: of_int_le_iff)
  then have "of_int n * q \<le> of_int (2 ^ 53) * q" using qpos by (simp add: mult_right_mono)
  also have "of_int (2 ^ 53) * q = pow2 53 * pow2 (e - 52)" by (simp add: pow2_def q_def)
  also have "\<dots> = pow2 (e + 1)" by (simp add: add.commute flip: pow2_add)
  finally have le: "of_int n * pow2 (e - 52) \<le> pow2 (e + 1)" by (simp add: q_def)
  show ?thesis
  proof (cases "n = 0")
    case True
    then show ?thesis using v by (simp add: round64_def)
  next
    case False
    with n0 have "0 < n" by simp
    from round64_exact[OF this e le] fin v show ?thesis by (auto simp: q_def)
  qed
qed

lemma binary64_num_add: "binary64 (num_add x y)"
proof (cases "num_add x y")
  case (Fin v)
  then obtain a b where "x = Fin a" "y = Fin b" by (cases x; cases y) auto
  with Fin have "round64 (a + b) = Fin v" by simp
  then have "round64 v = Fin v" by (rule round64_idem)
  with Fin show ?thesis by (simp add: binary64_def)
qed (simp_all add: binary64_def)

lemma num_add_zero: "binary64 x \<Longrightarrow> num_add x (Fin 0) = x"
  by (cases x) (auto simp: binary64_def)

lemma roundHalfEven_ge: "of_int N \<le> x \<Longrightarrow> N \<le> roundHalfEven x"
proof -
  assume "of_int N \<le> x"
  then have "N \<le> \<lfloor>x\<rfloor>" by (simp add: le_floor_iff)
  then show ?thesis by (auto simp: roundHalfEven_def Let_def)
qed

lemma round64_neg: "round64 (- r) = num_neg (round64 r)"
  by (cases "r = 0"; cases "0 < r") (auto simp: round64_def Let_def)

lemma ilog2_ge:
  assumes "pow2 k \<le> a" shows "k \<le> ilog2 a"
proof -
  have a: "0 < a" using assms pow2_pos[of k] by simp
  have "pow2 k < pow2 (ilog2 a + 1)" using ilog2_upper[OF a] assms by simp
  then have "k < ilog2 a + 1" using pow2_mono[of "ilog2 a + 1" k] by (cases "k < ilog2 a + 1") auto
  then show ?thesis by simp
qed

lemma round64_lower:
  assumes "pow2 k \<le> r" and "- 1022 \<le> k"
  shows "round64 r = PInf \<or> (\<exists>v. round64 r = Fin v \<and> pow2 k \<le> v)"
proof -
  have r: "0 < r" "r \<noteq> 0" "\<bar>r\<bar> = r" using assms(1) pow2_pos[of k] by simp_all
  define e where "e = max (ilog2 r) (- 1022)"
  define q where "q = pow2 (e - 52)"
  define v where "v = of_int (roundHalfEven (r / q)) * q"
  have ke: "k \<le> ilog2 r" using assms(1) by (rule ilog2_ge)
  then have e: "e = ilog2 r" using assms(2) by (simp add: e_def)
  have qpos: "0 < q" by (simp add: q_def pow2_pos)
  have "pow2 e \<le> r" unfolding e using r(1) by (rule ilog2_le)
  then have "pow2 e / q \<le> r / q" using qpos by (simp add: divide_right_mono)
  moreover have "pow2 e / q = of_int (2 ^ 52)"
  proof -
    have "pow2 e / q = pow2 (e - (e - 52))" unfolding q_def by (rule pow2_diff[symmetric])
    also have "\<dots> = pow2 52" by simp
    also have "\<dots> = of_int (2 ^ 52)" by (simp add: pow2_def)
    finally show ?thesis .
  qed
  ultimately have "of_int (2 ^ 52) \<le> r / q" by simp
  then have "2 ^ 52 \<le> roundHalfEven (r / q)" by (rule roundHalfEven_ge)
  then have "(of_int (2 ^ 52) :: rat) \<le> of_int (roundHalfEven (r / q))" by (simp only: of_int_le_iff)
  then have "of_int (2 ^ 52) * q \<le> v" using qpos by (simp add: v_def mult_right_mono)
  moreover have "of_int (2 ^ 52) * q = pow2 e"
  proof -
    have "of_int (2 ^ 52) * q = pow2 52 * pow2 (e - 52)" by (simp add: q_def pow2_def)
    also have "\<dots> = pow2 e" by (simp flip: pow2_add)
    finally show ?thesis .
  qed
  moreover have "pow2 k \<le> pow2 e" using ke e by (intro pow2_mono) simp
  ultimately have "pow2 k \<le> v" by simp
  moreover have "round64 r = (if pow2 1024 \<le> v then PInf else Fin v)"
    using r by (simp add: round64_def Let_def e_def q_def v_def)
  ultimately show ?thesis by auto
qed

lemma round64_upper_bound:
  assumes "0 < r"
  shows "of_int (roundHalfEven (r / pow2 (max (ilog2 r) (- 1022) - 52))) * pow2 (max (ilog2 r) (- 1022) - 52)
           \<le> pow2 (max (ilog2 r) (- 1022) + 1)"
proof -
  define e where "e = max (ilog2 r) (- 1022)"
  define q where "q = pow2 (e - 52)"
  define n where "n = roundHalfEven (r / q)"
  have qpos: "0 < q" by (simp add: q_def pow2_pos)
  have "r < pow2 (ilog2 r + 1)" using assms by (rule ilog2_upper)
  also have "\<dots> \<le> pow2 (e + 1)" by (intro pow2_mono) (simp add: e_def)
  finally have "r / q < pow2 (e + 1) / q" using qpos by (simp add: divide_strict_right_mono)
  also have "pow2 (e + 1) / q = pow2 53" by (simp add: q_def flip: pow2_diff)
  also have "pow2 53 = of_int (2 ^ 53)" by (simp add: pow2_def)
  finally have "n \<le> 2 ^ 53" unfolding n_def by (intro roundHalfEven_le) simp
  then have "(of_int n :: rat) \<le> of_int (2 ^ 53)" by (simp only: of_int_le_iff)
  then have "of_int n * q \<le> of_int (2 ^ 53) * q" using qpos by (simp add: mult_right_mono)
  also have "of_int (2 ^ 53) * q = pow2 53 * pow2 (e - 52)" by (simp add: pow2_def q_def)
  also have "\<dots> = pow2 (e + 1)" by (simp add: add.commute flip: pow2_add)
  finally show ?thesis by (simp add: n_def q_def e_def)
qed

lemma round64_middle:
  assumes lo: "1 / 18446744073709551616 \<le> \<bar>r\<bar>" and hi: "\<bar>r\<bar> < 18446744073709551616"
  shows "round64 r =
     (let a = \<bar>r\<bar>; q = pow2 (ilog2 a - 52); v = of_int (roundHalfEven (a / q)) * q
      in Fin (if 0 < r then v else - v))"
proof -
  define a where "a = \<bar>r\<bar>"
  have apos: "0 < a" using lo by (simp add: a_def)
  have r0: "r \<noteq> 0" using apos by (auto simp: a_def)
  have "pow2 (- 64) \<le> a" using lo by (simp add: a_def pow2_def)
  then have "- 64 \<le> ilog2 a" by (rule ilog2_ge)
  then have e: "max (ilog2 a) (- 1022) = ilog2 a" by simp
  have "pow2 (ilog2 a) \<le> a" using apos by (rule ilog2_le)
  also have "a < pow2 64" using hi by (simp add: a_def pow2_def)
  finally have "ilog2 a < 64" using pow2_mono[of 64 "ilog2 a"] by (cases "ilog2 a < 64") auto
  then have "pow2 (ilog2 a + 1) \<le> pow2 64" by (intro pow2_mono) simp
  also have "pow2 64 < pow2 1024" by (intro pow2_strict_mono) simp
  finally have "pow2 (ilog2 a + 1) < pow2 1024" .
  with round64_upper_bound[OF apos] have
    "\<not> pow2 1024 \<le> of_int (roundHalfEven (a / pow2 (ilog2 a - 52))) * pow2 (ilog2 a - 52)"
    by (simp add: e)
  then show ?thesis using r0 by (simp add: round64_def Let_def a_def[symmetric] e)
qed

lemma round64_code [code]:
  "round64 r =
     (if r = of_int \<lfloor>r\<rfloor> \<and> \<bar>r\<bar> < 9007199254740992 then Fin r
      else if 1 / 18446744073709551616 \<le> \<bar>r\<bar> \<and> \<bar>r\<bar> < 18446744073709551616 then
       (let a = \<bar>r\<bar>; q = pow2 (ilog2 a - 52); v = of_int (roundHalfEven (a / q)) * q
        in Fin (if 0 < r then v else - v))
      else if r = 0 then Fin 0 else
       (let a = \<bar>r\<bar>;
            e = max (ilog2 a) (- 1022);
            q = pow2 (e - 52);
            v = of_int (roundHalfEven (a / q)) * q
        in if pow2 1024 \<le> v then (if 0 < r then PInf else NInf)
           else Fin (if 0 < r then v else - v)))"
proof (cases "r = of_int \<lfloor>r\<rfloor> \<and> \<bar>r\<bar> < 9007199254740992")
  case True
  then have r: "r = of_int \<lfloor>r\<rfloor>" and "\<bar>of_int \<lfloor>r\<rfloor> :: rat\<bar> < 9007199254740992" by simp_all
  then have "\<bar>\<lfloor>r\<rfloor>\<bar> < 2 ^ 53" by (simp flip: of_int_abs)
  then have "round64 (of_int \<lfloor>r\<rfloor>) = Fin (of_int \<lfloor>r\<rfloor>)" by (rule round64_of_int)
  with r True show ?thesis by simp
next
  case False
  show ?thesis
  proof (cases "1 / 18446744073709551616 \<le> \<bar>r\<bar> \<and> \<bar>r\<bar> < 18446744073709551616")
    case True
    then have "round64 r =
       (let a = \<bar>r\<bar>; q = pow2 (ilog2 a - 52); v = of_int (roundHalfEven (a / q)) * q
        in Fin (if 0 < r then v else - v))"
      by (intro round64_middle) simp_all
    with False True show ?thesis by (simp only: if_True if_False simp_thms)
  next
    case F2: False
    with False show ?thesis unfolding round64_def by (simp only: if_False)
  qed
qed

section \<open>The loop of processData, key by key\<close>

lemma map_fst_modify: "map fst (modify k f m) = map fst m"
  by (induction m) (auto simp: modify_def)

lemma map_of_modify: "map_of (modify k f m) k' = (if k' = k then map_option f (map_of m k) else map_of m k')"
  by (induction m) (auto simp: modify_def)

lemma has_map_of: "has m k \<longleftrightarrow> map_of m k \<noteq> None"
  by (induction m) (auto simp: has_def)

lemma processRow_cases:
  assumes "processRow E hs m row = Inr m'"
  shows "(\<not> admitted hs row \<and> m' = m) \<or>
         (admitted hs row \<and>
          m' = modify (rowMaterial hs row) (applyRow E hs row)
                 (if has m (rowMaterial hs row) then m else m @ [(rowMaterial hs row, newSummary hs row)]))"
  using assms
  by (auto simp: processRow_def admitted_def rowMovement_def rowMaterial_def rowQuantity_def
        applyRow_def[abs_def] rowTransaction_def Let_def split: jsval.splits if_splits)

lemma processRow_lookup:
  assumes "processRow E hs m row = Inr m'"
  shows "map_of m' k = stepFor E hs k (map_of m k) row"
  using processRow_cases[OF assms]
  by (auto simp: stepFor_def map_of_modify has_map_of map_add_def split: option.splits)

lemma processRow_keys:
  assumes "processRow E hs m row = Inr m'"
  shows "map fst m' = (if admitted hs row \<and> \<not> has m (rowMaterial hs row)
                       then map fst m @ [rowMaterial hs row] else map fst m)"
  using processRow_cases[OF assms] by (auto simp: map_fst_modify)

lemma processRows_lookup:
  "processRows E hs m rs = Inr m' \<Longrightarrow> map_of m' k = foldl (stepFor E hs k) (map_of m k) rs"
proof (induction rs arbitrary: m)
  case Nil
  then show ?case by simp
next
  case (Cons row rest)
  then obtain m1 where 1: "processRow E hs m row = Inr m1" and 2: "processRows E hs m1 rest = Inr m'"
    by (auto split: sum.splits)
  show ?case using Cons.IH[OF 2] processRow_lookup[OF 1] by simp
qed

lemma processRows_distinct:
  "processRows E hs m rs = Inr m' \<Longrightarrow> distinct (map fst m) \<Longrightarrow> distinct (map fst m')"
proof (induction rs arbitrary: m)
  case Nil
  then show ?case by simp
next
  case (Cons row rest)
  then obtain m1 where 1: "processRow E hs m row = Inr m1" and 2: "processRows E hs m1 rest = Inr m'"
    by (auto split: sum.splits)
  have "distinct (map fst m1)"
    using processRow_keys[OF 1] Cons.prems(2) by (auto simp: has_def)
  then show ?case using Cons.IH[OF 2] by simp
qed

lemma processRows_keys:
  "processRows E hs m rs = Inr m' \<Longrightarrow>
   set (map fst m') = set (map fst m) \<union> rowMaterial hs ` {r \<in> set rs. admitted hs r}"
proof (induction rs arbitrary: m)
  case Nil
  then show ?case by simp
next
  case (Cons row rest)
  then obtain m1 where 1: "processRow E hs m row = Inr m1" and 2: "processRows E hs m1 rest = Inr m'"
    by (auto split: sum.splits)
  show ?case using Cons.IH[OF 2] processRow_keys[OF 1] by (auto simp: has_def)
qed

lemma admitted_movement: "admitted hs r \<Longrightarrow> rowMovement hs r \<noteq> ''101'' \<Longrightarrow> rowMovement hs r = ''201''"
  by (auto simp: admitted_def)

lemma foldl_stepFor_Some:
  "foldl (stepFor E hs k) (Some c) rs =
     Some (c\<lparr> totalIn := foldl num_add (totalIn c) (map (rowQuantity hs) (inboundRows hs k rs)),
              totalOut := foldl num_add (totalOut c)
                            (map (\<lambda>r. Math_abs (rowQuantity hs r)) (outboundRows hs k rs)),
              inTransactions := inTransactions c @ map (rowTransaction E hs) (inboundRows hs k rs),
              outTransactions := outTransactions c @ map (rowTransaction E hs) (outboundRows hs k rs) \<rparr>)"
proof (induction rs arbitrary: c)
  case Nil
  then show ?case by (simp add: inboundRows_def outboundRows_def)
next
  case (Cons r rs)
  show ?case
  proof (cases "admitted hs r \<and> rowMaterial hs r = k")
    case False
    then have "stepFor E hs k (Some c) r = Some c" by (auto simp: stepFor_def)
    with False show ?thesis by (auto simp: Cons.IH inboundRows_def outboundRows_def)
  next
    case True
    then have s: "stepFor E hs k (Some c) r = Some (applyRow E hs r c)" by (simp add: stepFor_def)
    show ?thesis
    proof (cases "rowMovement hs r = ''101''")
      case True
      with \<open>admitted hs r \<and> rowMaterial hs r = k\<close> show ?thesis
        by (simp add: s Cons.IH applyRow_def inboundRows_def outboundRows_def)
    next
      case False
      with \<open>admitted hs r \<and> rowMaterial hs r = k\<close> have "rowMovement hs r = ''201''"
        by (simp add: admitted_movement)
      with \<open>admitted hs r \<and> rowMaterial hs r = k\<close> show ?thesis
        by (simp add: s Cons.IH applyRow_def inboundRows_def outboundRows_def)
    qed
  qed
qed

lemma foldl_stepFor_None:
  "foldl (stepFor E hs k) None rs =
     (case materialRows hs k rs of
        [] \<Rightarrow> None
      | r # _ \<Rightarrow> foldl (stepFor E hs k) (Some (newSummary hs r)) rs)"
proof (induction rs)
  case Nil
  then show ?case by (simp add: materialRows_def)
next
  case (Cons r rs)
  show ?case
  proof (cases "admitted hs r \<and> rowMaterial hs r = k")
    case False
    then have "stepFor E hs k None r = None" by (auto simp: stepFor_def)
    moreover have "\<And>c. stepFor E hs k (Some c) r = Some c" using False by (auto simp: stepFor_def)
    ultimately show ?thesis using False Cons.IH
      by (auto simp: materialRows_def split: list.splits)
  next
    case True
    then have "stepFor E hs k None r = Some (applyRow E hs r (newSummary hs r))"
      and "stepFor E hs k (Some (newSummary hs r)) r = Some (applyRow E hs r (newSummary hs r))"
      by (simp_all add: stepFor_def)
    with True show ?thesis by (simp add: materialRows_def)
  qed
qed

lemma processData_entry:
  assumes "processData E response = Inr out" and "s \<in> set out"
  shows "\<exists>r rest c.
           materialRows (headers response) (material s) (rows response) = r # rest \<and>
           foldl (stepFor E (headers response) (material s)) (Some (newSummary (headers response) r))
             (rows response) = Some c \<and>
           s = finish E (material s, c)"
proof -
  let ?hs = "headers response" and ?rs = "rows response"
  from assms(1) obtain m where m: "processRows E ?hs [] ?rs = Inr m" and out: "out = map (finish E) m"
    by (auto simp: processData_def split: if_splits sum.splits)
  from assms(2) out obtain k c where kc: "(k, c) \<in> set m" and s: "s = finish E (k, c)"
    by auto
  have k: "material s = k" by (simp add: s finish_def)
  have "distinct (map fst m)" using processRows_distinct[OF m] by simp
  with kc have "map_of m k = Some c" by simp
  then have f: "foldl (stepFor E ?hs k) None ?rs = Some c"
    using processRows_lookup[OF m, of k] by simp
  then obtain r rest where "materialRows ?hs k ?rs = r # rest"
    and "foldl (stepFor E ?hs k) (Some (newSummary ?hs r)) ?rs = Some c"
    by (auto simp: foldl_stepFor_None split: list.splits)
  then show ?thesis using s k by auto
qed

lemma processData_materials:
  assumes "processData E response = Inr out"
  shows "distinct (map material out)"
    and "set (map material out) = rowMaterial (headers response) ` {r \<in> set (rows response). admitted (headers response) r}"
proof -
  let ?hs = "headers response" and ?rs = "rows response"
  from assms(1) obtain m where m: "processRows E ?hs [] ?rs = Inr m" and out: "out = map (finish E) m"
    by (auto simp: processData_def split: if_splits sum.splits)
  have mf: "map material out = map fst m"
    by (auto simp: out finish_def split: prod.splits)
  show "distinct (map material out)" using processRows_distinct[OF m] by (simp add: mf)
  show "set (map material out) = rowMaterial ?hs ` {r \<in> set ?rs. admitted ?hs r}"
    using processRows_keys[OF m] by (simp add: mf)
qed

lemma processData_fields:
  assumes "processData E response = Inr out" and "s \<in> set out"
  shows "\<exists>r rest. materialRows (headers response) (material s) (rows response) = r # rest \<and>
           materialDescription s =
             orElse (cellAt r (indexOf (headers response) ''Material Description'')) (Str ''No Description'') \<and>
           unit s = orElse (cellAt r (indexOf (headers response) ''Unit of Entry'')) (Str ''N/A'')"
    and "totalIn s = foldl num_add (Fin 0)
           (map (rowQuantity (headers response)) (inboundRows (headers response) (material s) (rows response)))"
    and "totalOut s = foldl num_add (Fin 0)
           (map (\<lambda>r. Math_abs (rowQuantity (headers response) r))
              (outboundRows (headers response) (material s) (rows response)))"
    and "balance s = num_sub (totalIn s) (totalOut s)"
    and "inTransactions s = Array_sort (byDateDesc E)
           (map (rowTransaction E (headers response))
              (inboundRows (headers response) (material s) (rows response)))"
    and "outTransactions s = Array_sort (byDateDesc E)
           (map (rowTransaction E (headers response))
              (outboundRows (headers response) (material s) (rows response)))"
proof -
  let ?hs = "headers response" and ?rs = "rows response"
  from processData_entry[OF assms] obtain r rest c where
    mr: "materialRows ?hs (material s) ?rs = r # rest" and
    c: "foldl (stepFor E ?hs (material s)) (Some (newSummary ?hs r)) ?rs = Some c" and
    s: "s = finish E (material s, c)"
    by blast
  note c' = c[unfolded foldl_stepFor_Some, simplified]
  have d: "materialDescription s = materialDescription c" "unit s = unit c" 
    "totalIn s = totalIn c" "totalOut s = totalOut c"
    "inTransactions s = Array_sort (byDateDesc E) (inTransactions c)"
    "outTransactions s = Array_sort (byDateDesc E) (outTransactions c)"
    by (subst s, simp add: finish_def)+
  show "balance s = num_sub (totalIn s) (totalOut s)"
    by (subst s, subst (2) s, subst (3) s, simp add: finish_def)
  show "totalIn s = foldl num_add (Fin 0) (map (rowQuantity ?hs) (inboundRows ?hs (material s) ?rs))"
    unfolding d using c' by (auto simp: newSummary_def)
  show "totalOut s = foldl num_add (Fin 0)
           (map (\<lambda>r. Math_abs (rowQuantity ?hs r)) (outboundRows ?hs (material s) ?rs))"
    unfolding d using c' by (auto simp: newSummary_def)
  show "inTransactions s = Array_sort (byDateDesc E)
           (map (rowTransaction E ?hs) (inboundRows ?hs (material s) ?rs))"
    unfolding d using c' by (auto simp: newSummary_def)
  show "outTransactions s = Array_sort (byDateDesc E)
           (map (rowTransaction E ?hs) (outboundRows ?hs (material s) ?rs))"
    unfolding d using c' by (auto simp: newSummary_def)
  have "materialDescription s = orElse (cellAt r (indexOf ?hs ''Material Description'')) (Str ''No Description'')"
    and "unit s = orElse (cellAt r (indexOf ?hs ''Unit of Entry'')) (Str ''N/A'')"
    unfolding d using c' by (auto simp: newSummary_def)
  with mr show "\<exists>r rest. materialRows ?hs (material s) ?rs = r # rest \<and>
           materialDescription s =
             orElse (cellAt r (indexOf ?hs ''Material Description'')) (Str ''No Description'') \<and>
           unit s = orElse (cellAt r (indexOf ?hs ''Unit of Entry'')) (Str ''N/A'')"
    by blast
qed

section \<open>Sorting by posting date\<close>

lemma getTime_cases: "getTime E v = NaN \<or> (\<exists>z. getTime E v = Fin (of_int z))"
  by (cases v) (auto simp: getTime_def TimeClip_def StringToNumber_def split: option.splits jsnum.splits)

lemma num_sub_int_pos:
  "num_less (Fin 0) (num_sub (Fin (of_int b)) (Fin (of_int a))) \<longleftrightarrow> a < b"
proof (cases "a < b")
  case True
  then have "(1::rat) \<le> of_int (b - a)" by (metis of_int_1_le_iff zless_imp_add1_zle diff_ge_0_iff_ge add.commute le_diff_eq)
  then have "num_less (Fin 0) (round64 (of_int b - of_int a))"
    using round64_pos[of "of_int b - of_int a"] by simp
  with True show ?thesis by (simp add: num_sub_def)
next
  case False
  then have "(of_int b - of_int a :: rat) \<le> 0" by simp
  then have "\<not> num_less (Fin 0) (round64 (of_int b - of_int a))" by (rule round64_nonpos)
  with False show ?thesis by (simp add: num_sub_def)
qed

lemma byDateDesc_pos:
  assumes "\<not> isNaN (getTime E (postingDate x))" and "\<not> isNaN (getTime E (postingDate y))"
  shows "num_less (Fin 0) (byDateDesc E x y) \<longleftrightarrow> \<not> dateKey E x \<le> dateKey E y"
proof -
  from assms getTime_cases[of E "postingDate x"] getTime_cases[of E "postingDate y"]
  obtain a b where "getTime E (postingDate x) = Fin (of_int a)" "getTime E (postingDate y) = Fin (of_int b)"
    by auto
  then show ?thesis by (auto simp: byDateDesc_def dateKey_def num_sub_int_pos)
qed

lemma insertSorted_insort:
  assumes "\<not> isNaN (getTime E (postingDate x))" and "\<forall>y \<in> set ys. \<not> isNaN (getTime E (postingDate y))"
  shows "insertSorted (byDateDesc E) x ys = insort_key (dateKey E) x ys"
  using assms by (induction ys) (auto simp: byDateDesc_pos)

lemma Array_sort_sort_key:
  assumes "\<forall>y \<in> set xs. \<not> isNaN (getTime E (postingDate y))"
  shows "Array_sort (byDateDesc E) xs = sort_key (dateKey E) xs"
  using assms
proof (induction xs)
  case Nil
  then show ?case by (simp add: Array_sort_def)
next
  case (Cons x xs)
  then have "Array_sort (byDateDesc E) xs = sort_key (dateKey E) xs" by simp
  moreover have "\<forall>y \<in> set (sort_key (dateKey E) xs). \<not> isNaN (getTime E (postingDate y))"
    using Cons.prems by simp
  ultimately show ?case using Cons.prems
    by (simp add: Array_sort_def insertSorted_insort sort_key_def)
qed

lemma dateKey_le:
  assumes "\<not> isNaN (getTime E (postingDate x))" and "\<not> isNaN (getTime E (postingDate y))"
  shows "dateKey E x \<le> dateKey E y \<longleftrightarrow> num_le (getTime E (postingDate y)) (getTime E (postingDate x))"
proof -
  from assms getTime_cases[of E "postingDate x"] getTime_cases[of E "postingDate y"]
  obtain a b where "getTime E (postingDate x) = Fin (of_int a)" "getTime E (postingDate y) = Fin (of_int b)"
    by auto
  then show ?thesis by (simp add: dateKey_def)
qed

lemma dateKey_eq:
  assumes "\<not> isNaN (getTime E (postingDate x))"
  shows "getTime E (postingDate x) = Fin r \<longleftrightarrow> dateKey E x = - r"
proof -
  from assms getTime_cases[of E "postingDate x"]
  obtain a where "getTime E (postingDate x) = Fin (of_int a)" by auto
  then show ?thesis by (auto simp: dateKey_def)
qed

lemma Array_sort_byDate:
  assumes "\<forall>y \<in> set xs. \<not> isNaN (getTime E (postingDate y))"
  shows "sorted_wrt (\<lambda>a b. num_le (getTime E (postingDate b)) (getTime E (postingDate a)))
           (Array_sort (byDateDesc E) xs)"
    and "filter (\<lambda>t. getTime E (postingDate t) = d) (Array_sort (byDateDesc E) xs) =
         filter (\<lambda>t. getTime E (postingDate t) = d) xs"
    and "set (Array_sort (byDateDesc E) xs) = set xs"
proof -
  let ?ys = "sort_key (dateKey E) xs"
  have eq: "Array_sort (byDateDesc E) xs = ?ys" using assms by (rule Array_sort_sort_key)
  have v: "\<forall>y \<in> set ?ys. \<not> isNaN (getTime E (postingDate y))" using assms by simp
  have "sorted_wrt (\<lambda>a b. dateKey E a \<le> dateKey E b) ?ys"
    using sorted_sort_key[of "dateKey E" xs] by (simp add: sorted_map)
  then have "sorted_wrt (\<lambda>a b. num_le (getTime E (postingDate b)) (getTime E (postingDate a))) ?ys"
    by (rule sorted_wrt_mono_rel[rotated]) (use v in \<open>simp add: dateKey_le\<close>)
  then show "sorted_wrt (\<lambda>a b. num_le (getTime E (postingDate b)) (getTime E (postingDate a)))
           (Array_sort (byDateDesc E) xs)" by (simp add: eq)
  show "set (Array_sort (byDateDesc E) xs) = set xs" by (simp add: eq)
  show "filter (\<lambda>t. getTime E (postingDate t) = d) (Array_sort (byDateDesc E) xs) =
         filter (\<lambda>t. getTime E (postingDate t) = d) xs"
  proof (cases d)
    case (Fin r)
    have "filter (\<lambda>t. getTime E (postingDate t) = d) ?ys = filter (\<lambda>t. dateKey E t = - r) ?ys"
      using v by (intro filter_cong) (auto simp: Fin dateKey_eq)
    also have "\<dots> = filter (\<lambda>t. dateKey E t = - r) xs" by (rule sort_key_stable)
    also have "\<dots> = filter (\<lambda>t. getTime E (postingDate t) = d) xs"
      using assms by (intro filter_cong) (auto simp: Fin dateKey_eq)
    finally show ?thesis by (simp add: eq)
  next
    case NaN
    have "filter (\<lambda>t. getTime E (postingDate t) = d) ?ys = []" 
      using v by (auto simp: NaN filter_empty_conv)
    moreover have "filter (\<lambda>t. getTime E (postingDate t) = d) xs = []"
      using assms by (auto simp: NaN filter_empty_conv)
    ultimately show ?thesis by (simp add: eq)
  next
    case PInf
    have "\<And>t::Transaction. getTime E (postingDate t) \<noteq> PInf" using getTime_cases[of E] by (metis jsnum.distinct)
    then show ?thesis by (simp add: PInf)
  next
    case NInf
    have "\<And>t::Transaction. getTime E (postingDate t) \<noteq> NInf" using getTime_cases[of E] by (metis jsnum.distinct)
    then show ?thesis by (simp add: NInf)
  qed
qed

section \<open>Further facts about the aggregation\<close>

lemma mset_insertSorted: "mset (insertSorted cmp x ys) = add_mset x (mset ys)"
  by (induction ys) auto

lemma mset_Array_sort: "mset (Array_sort cmp xs) = mset xs"
  by (induction xs) (auto simp: Array_sort_def mset_insertSorted)

lemma foldl_num_add_nonneg:
  "num_le (Fin 0) a \<Longrightarrow> \<forall>x \<in> set xs. num_le (Fin 0) x \<Longrightarrow> num_le (Fin 0) (foldl num_add a xs)"
  by (induction xs arbitrary: a) (auto simp: num_add_nonneg)

lemma admitted_iff:
  "admitted hs row \<longleftrightarrow>
     (\<exists>mt. cellAt row (indexOf hs ''Movement Type'') = Str mt \<and> (trim mt = ''101'' \<or> trim mt = ''201''))
     \<and> truthy (cellAt row (indexOf hs ''Material''))
     \<and> \<not> isNaN (Number (cellAt row (indexOf hs ''Quantity'')))"
  by (auto simp: admitted_def rowMovement_def rowMaterial_def rowQuantity_def split: jsval.splits)

lemma processRow_skip:
  assumes "\<not> admitted hs row" and "\<forall>n. cellAt row (indexOf hs ''Movement Type'') \<noteq> Num n"
  shows "processRow E hs m row = Inr m"
  using assms
  by (auto simp: processRow_def admitted_def rowMovement_def rowMaterial_def rowQuantity_def Let_def
      split: jsval.splits)


lemma sortedByDateDesc_Array_sort:
  assumes "\<forall>y \<in> set xs. \<not> isNaN (getTime E (postingDate y))"
  shows "sortedByDateDesc E (Array_sort (byDateDesc E) xs)"
proof -
  have "sorted_wrt (\<lambda>a b. num_le (getTime E (postingDate b)) (getTime E (postingDate a)))
           (Array_sort (byDateDesc E) xs)"
    using assms by (rule Array_sort_byDate)
  moreover have "\<And>x y. num_le x y \<Longrightarrow> \<not> num_less y x"
  proof -
    fix x y show "num_le x y \<Longrightarrow> \<not> num_less y x" by (cases x; cases y) auto
  qed
  ultimately show ?thesis
    unfolding sortedByDateDesc_def by (rule sorted_wrt_mono_rel[rotated]) simp
qed

lemma postingDate_rowTransaction:
  "postingDate (rowTransaction E hs r) = cellAt r (indexOf hs ''Posting Date'')"
  by (simp add: rowTransaction_def mkTransaction_def)


section \<open>Pages, slices and headers\<close>

lemma pages_bounds:
  fixes n :: int
  shows "12 * ((n + 11) div 12 - 1) < n \<and> n \<le> 12 * ((n + 11) div 12)"
proof -
  define d m where "d = (n + 11) div 12" and "m = (n + 11) mod 12"
  have f: "n + 11 = 12 * d + m" "0 \<le> m" "m < 12" by (simp_all add: d_def m_def)
  have "12 * (d - 1) < n" using f by (simp add: algebra_simps)
  moreover have "n \<le> 12 * d" using f by linarith
  ultimately show ?thesis by (simp only: d_def)
qed

lemma indexOf_range: "indexOf xs h = - 1 \<or> 0 \<le> indexOf xs h"
  by (induction xs) (auto simp: Let_def)

lemma indexOf_absent: "indexOf hs h = - 1 \<longleftrightarrow> h \<notin> set hs"
proof (induction hs)
  case Nil
  then show ?case by simp
next
  case (Cons x xs)
  from indexOf_range[of xs h] have "indexOf xs h + 1 \<noteq> - 1" by linarith
  with Cons show ?case by (auto simp: Let_def)
qed


section \<open>The totals are binary64 numbers\<close>

lemma binary64_zero: "binary64 (Fin 0)"
  by (simp add: binary64_def round64_def)

lemma processRow_binary64:
  assumes "processRow E hs m row = Inr m'"
    and "\<forall>(k, c) \<in> set m. binary64 (totalIn c) \<and> binary64 (totalOut c)"
  shows "\<forall>(k, c) \<in> set m'. binary64 (totalIn c) \<and> binary64 (totalOut c)"
proof -
  have n: "binary64 (totalIn (newSummary hs row)) \<and> binary64 (totalOut (newSummary hs row))"
    by (simp add: newSummary_def binary64_zero)
  have a: "binary64 (totalIn (applyRow E hs row c)) \<and> binary64 (totalOut (applyRow E hs row c))"
    if "binary64 (totalIn c) \<and> binary64 (totalOut c)" for c
    using that by (simp add: applyRow_def binary64_num_add)
  from processRow_cases[OF assms(1)] show ?thesis
  proof
    assume "\<not> admitted hs row \<and> m' = m"
    with assms(2) show ?thesis by simp
  next
    assume h: "admitted hs row \<and>
      m' = modify (rowMaterial hs row) (applyRow E hs row)
            (if has m (rowMaterial hs row) then m else m @ [(rowMaterial hs row, newSummary hs row)])"
    let ?m1 = "if has m (rowMaterial hs row) then m else m @ [(rowMaterial hs row, newSummary hs row)]"
    have "\<forall>(k, c) \<in> set ?m1. binary64 (totalIn c) \<and> binary64 (totalOut c)"
      using assms(2) n by auto
    then have "\<forall>(k, c) \<in> set (modify (rowMaterial hs row) (applyRow E hs row) ?m1).
                 binary64 (totalIn c) \<and> binary64 (totalOut c)"
      using a unfolding modify_def by (auto split: if_splits)
    with h show ?thesis by simp
  qed
qed

lemma processRows_binary64:
  "processRows E hs m rs = Inr m' \<Longrightarrow>
   \<forall>(k, c) \<in> set m. binary64 (totalIn c) \<and> binary64 (totalOut c) \<Longrightarrow>
   \<forall>(k, c) \<in> set m'. binary64 (totalIn c) \<and> binary64 (totalOut c)"
proof (induction rs arbitrary: m)
  case Nil
  then show ?case by simp
next
  case (Cons row rest)
  then obtain m1 where 1: "processRow E hs m row = Inr m1" and 2: "processRows E hs m1 rest = Inr m'"
    by (auto split: sum.splits)
  from processRow_binary64[OF 1 Cons.prems(2)] Cons.IH[OF 2] show ?case by blast
qed

lemma processData_binary64:
  assumes "processData E response = Inr out" and "s \<in> set out"
  shows "binary64 (totalIn s) \<and> binary64 (totalOut s) \<and> binary64 (balance s)"
proof -
  from assms(1) obtain m where m: "processRows E (headers response) [] (rows response) = Inr m"
    and out: "out = map (finish E) m"
    by (auto simp: processData_def split: if_splits sum.splits)
  from assms(2) out obtain k c where kc: "(k, c) \<in> set m" and s: "s = finish E (k, c)" by auto
  have "\<forall>(k, c) \<in> set m. binary64 (totalIn c) \<and> binary64 (totalOut c)"
    using processRows_binary64[OF m] by simp
  with kc have "binary64 (totalIn c) \<and> binary64 (totalOut c)" by auto
  then show ?thesis by (simp add: s finish_def num_sub_def binary64_num_add)
qed

section \<open>Blank quantities\<close>

lemma trim_blank:
  assumes "\<forall>c \<in> set q. isWhiteSpace c" shows "trim q = []"
proof -
  from assms have d: "dropWhile isWhiteSpace q = []" by simp
  show ?thesis unfolding trim_def d by simp
qed

lemma StringToNumber_blank: "\<forall>c \<in> set q. isWhiteSpace c \<Longrightarrow> StringToNumber q = Fin 0"
  by (simp add: StringToNumber_def trim_blank)

lemma set_Array_sort: "set (Array_sort cmp xs) = set xs"
  using mset_Array_sort[of cmp xs] by (metis set_mset_mset)


section \<open>CSV lines\<close>

lemma mapE_Inr:
  assumes "mapE f xs = Inr ys" and "\<And>x y. x \<in> set xs \<Longrightarrow> f x = Inr y \<Longrightarrow> y = g x"
  shows "ys = map g xs"
  using assms
proof (induction xs arbitrary: ys)
  case Nil
  then show ?case by simp
next
  case (Cons x xs)
  from Cons.prems(1) obtain y zs where y: "f x = Inr y" and zs: "mapE f xs = Inr zs" and ys: "ys = y # zs"
    by (auto split: sum.splits)
  have "zs = map g xs" using Cons.IH[OF zs] Cons.prems(2) by simp
  moreover have "y = g x" using Cons.prems(2)[of x y] y by simp
  ultimately show ?case using ys by simp
qed

lemma unescape_escapeQuotes: "unescape (escapeQuotes s @ [CHR 0x22]) = Some s"
  by (induction s) (auto simp: escapeQuotes_def)

lemma unquote_quoted: "unquote (quoted s) = Some s"
  by (simp add: unquote_def quoted_def unescape_escapeQuotes)

lemma safe_Inr: "safe v = Inr t \<Longrightarrow> t = quoted (ToString E (orElse v (Str [])))"
  by (auto simp: safe_def ToString_def split: jsval.splits)

lemma inventoryLine_Inr:
  "inventoryLine E item = Inr l \<Longrightarrow>
   l = join '','' [ToString E (material item), quoted (ToString E (materialDescription item)),
                   numToString E (totalIn item), numToString E (totalOut item),
                   numToString E (balance item), ToString E (unit item)]"
  by (auto simp: inventoryLine_def ToString_def split: jsval.splits)

lemma transactionLine_Inr:
  assumes "transactionLine E ty tx = Inr l"
  shows "l = join '',''
           ([ToString E (postingDate tx),
             numToString E (if ty = ViewIn then quantity tx else num_neg (quantity tx))] @
            map (\<lambda>v. quoted (ToString E (orElse v (Str []))))
              [user tx, costCenter tx, document tx, reservation tx, headerText tx, freeText tx])"
proof -
  from assms obtain texts where
    t: "mapE safe [user tx, costCenter tx, document tx, reservation tx, headerText tx, freeText tx] = Inr texts"
    and l: "l = join '','' ([ToString E (postingDate tx),
             numToString E (if ty = ViewIn then quantity tx else num_neg (quantity tx))] @ texts)"
    unfolding transactionLine_def Let_def by (auto split: sum.splits)
  have "texts = map (\<lambda>v. quoted (ToString E (orElse v (Str []))))
              [user tx, costCenter tx, document tx, reservation tx, headerText tx, freeText tx]"
    using t by (rule mapE_Inr) (rule safe_Inr)
  with l show ?thesis by simp
qed

section \<open>When the base filter returns\<close>

lemma filterE_total:
  "\<forall>x \<in> set xs. \<exists>b. p x = Inr b \<Longrightarrow> \<exists>ys. filterE p xs = Inr ys \<and> set ys \<subseteq> set xs"
  by (induction xs) (auto split: sum.splits)

lemma matchesTerm_total:
  "material item = Str m \<Longrightarrow> materialDescription item = Str d \<Longrightarrow> \<exists>b. matchesTerm t item = Inr b"
  by (auto simp: matchesTerm_def)

lemma baseFilteredInventory_total:
  assumes "\<forall>item \<in> set (inventoryData st).
             (\<exists>m. material item = Str m) \<and> (\<exists>d. materialDescription item = Str d)"
  shows "\<exists>items. baseFilteredInventory st = Inr items"
proof -
  define f1 where "f1 = (if showLowStockOnly st
                then filter (\<lambda>item. num_le (balance item) lowStockThreshold) (inventoryData st)
                else inventoryData st)"
  define f2 where "f2 = (case movementTypeFilter st of
                  Filter101 \<Rightarrow> filter (\<lambda>item. num_less (Fin 0) (totalIn item)) f1
                | Filter201 \<Rightarrow> filter (\<lambda>item. num_less (Fin 0) (totalOut item)) f1
                | FilterAll \<Rightarrow> f1)"
  have "set f1 \<subseteq> set (inventoryData st)" by (auto simp: f1_def)
  then have "set f2 \<subseteq> set (inventoryData st)"
    by (auto simp: f2_def split: movementFilter.splits)
  with assms have "\<forall>x \<in> set f2. \<exists>b. matchesTerm (toLowerCase (searchTerm st)) x = Inr b"
    by (metis matchesTerm_total subsetD)
  then obtain ys where "filterE (matchesTerm (toLowerCase (searchTerm st))) f2 = Inr ys"
    using filterE_total by blast
  then show ?thesis
    unfolding baseFilteredInventory_def Let_def f1_def[symmetric] f2_def[symmetric] by auto
qed

section \<open>The bounds of a page\<close>

lemma filterE_length: "filterE p xs = Inr ys \<Longrightarrow> length ys \<le> length xs"
  by (induction xs arbitrary: ys) (auto split: sum.splits if_splits)

lemma length_insertSorted: "length (insertSorted cmp x ys) = Suc (length ys)"
  by (induction ys) auto

lemma length_Array_sort: "length (Array_sort cmp xs) = length xs"
  by (induction xs) (auto simp: Array_sort_def length_insertSorted)

lemma baseFilteredInventory_length:
  assumes "baseFilteredInventory st = Inr items"
  shows "length items \<le> length (inventoryData st)"
proof -
  define f1 where "f1 = (if showLowStockOnly st
                then filter (\<lambda>item. num_le (balance item) lowStockThreshold) (inventoryData st)
                else inventoryData st)"
  define f2 where "f2 = (case movementTypeFilter st of
                  Filter101 \<Rightarrow> filter (\<lambda>item. num_less (Fin 0) (totalIn item)) f1
                | Filter201 \<Rightarrow> filter (\<lambda>item. num_less (Fin 0) (totalOut item)) f1
                | FilterAll \<Rightarrow> f1)"
  have 1: "length f1 \<le> length (inventoryData st)" by (simp add: f1_def)
  have "length f2 \<le> length f1" by (simp add: f2_def split: movementFilter.splits)
  with 1 have 2: "length f2 \<le> length (inventoryData st)" by simp
  from assms have "items = f2 \<or> filterE (matchesTerm (toLowerCase (searchTerm st))) f2 = Inr items"
    unfolding baseFilteredInventory_def Let_def f1_def[symmetric] f2_def[symmetric]
    by (auto split: if_splits)
  then have "length items \<le> length f2" using filterE_length by auto
  with 2 show ?thesis by simp
qed

lemma clampIndex_whole: "clampIndex len (Fin (of_int z)) = (if z < 0 then max (len + z) 0 else min z len)"
  by (simp add: clampIndex_def Let_def)

lemma clampIndex_big:
  assumes "x = PInf \<or> (\<exists>v. x = Fin v \<and> pow2 38 \<le> v)" and "0 \<le> len" and "len < 2 ^ 32"
  shows "clampIndex len x = len"
proof -
  from assms(1) show ?thesis
  proof
    assume "x = PInf" then show ?thesis by (simp add: clampIndex_def)
  next
    assume "\<exists>v. x = Fin v \<and> pow2 38 \<le> v"
    then obtain v where x: "x = Fin v" and v: "pow2 38 \<le> v" by blast
    have "pow2 38 = of_int (2 ^ 38)" by (simp add: pow2_def)
    with v have "(of_int (2 ^ 38) :: rat) \<le> v" by simp
    then have f: "2 ^ 38 \<le> \<lfloor>v\<rfloor>" by (simp only: le_floor_iff)
    have p: "(2::int) ^ 32 \<le> 2 ^ 38" by simp
    have "0 \<le> v" using v pow2_pos[of 38] by simp
    moreover have "len \<le> \<lfloor>v\<rfloor>" using f assms(3) p by linarith
    ultimately show ?thesis using f by (simp add: clampIndex_def x Let_def)
  qed
qed

lemma clampIndex_negbig:
  assumes "x = NInf \<or> (\<exists>v. x = Fin v \<and> v \<le> - pow2 38)" and "0 \<le> len" and "len < 2 ^ 32"
  shows "clampIndex len x = 0"
proof -
  from assms(1) show ?thesis
  proof
    assume "x = NInf" then show ?thesis by (simp add: clampIndex_def)
  next
    assume "\<exists>v. x = Fin v \<and> v \<le> - pow2 38"
    then obtain v where x: "x = Fin v" and v: "v \<le> - pow2 38" by blast
    have "pow2 38 = of_int (2 ^ 38)" by (simp add: pow2_def)
    with v have "v \<le> of_int (- (2 ^ 38))" by simp
    then have c: "\<lceil>v\<rceil> \<le> - (2 ^ 38)" by (simp only: ceiling_le_iff)
    have "v < 0" using v pow2_pos[of 38] by simp
    moreover have "(2::int) ^ 32 \<le> 2 ^ 38" by simp
    then have "len + \<lceil>v\<rceil> \<le> 0" using c assms(3) by linarith
    ultimately show ?thesis using c by (simp add: clampIndex_def x Let_def)
  qed
qed

lemma round64_negbig:
  assumes "r \<le> - pow2 k" and "- 1022 \<le> k"
  shows "round64 r = NInf \<or> (\<exists>v. round64 r = Fin v \<and> v \<le> - pow2 k)"
proof -
  have "pow2 k \<le> - r" using assms(1) by simp
  from round64_lower[OF this assms(2)] have "round64 (- r) = PInf \<or> (\<exists>v. round64 (- r) = Fin v \<and> pow2 k \<le> v)" .
  then show ?thesis
    unfolding round64_neg by (cases "round64 r") auto
qed

lemma num_mul_big:
  assumes "x = PInf \<or> (\<exists>v. x = Fin v \<and> pow2 38 \<le> v)"
  shows "num_mul x (Fin 12) = PInf \<or> (\<exists>v. num_mul x (Fin 12) = Fin v \<and> pow2 38 \<le> v)"
proof -
  from assms show ?thesis
  proof
    assume "x = PInf" then show ?thesis by simp
  next
    assume "\<exists>v. x = Fin v \<and> pow2 38 \<le> v"
    then obtain v where x: "x = Fin v" and v: "pow2 38 \<le> v" by blast
    have "0 < v" using v pow2_pos[of 38] by simp
    then have "pow2 38 \<le> v * 12" using v by simp
    from round64_lower[OF this] show ?thesis by (simp add: x)
  qed
qed

lemma num_add_big:
  assumes "x = PInf \<or> (\<exists>v. x = Fin v \<and> pow2 38 \<le> v)"
  shows "num_add x (Fin 12) = PInf \<or> (\<exists>v. num_add x (Fin 12) = Fin v \<and> pow2 38 \<le> v)"
proof -
  from assms show ?thesis
  proof
    assume "x = PInf" then show ?thesis by simp
  next
    assume "\<exists>v. x = Fin v \<and> pow2 38 \<le> v"
    then obtain v where x: "x = Fin v" and v: "pow2 38 \<le> v" by blast
    have "pow2 38 \<le> v + 12" using v by simp
    from round64_lower[OF this] show ?thesis by (simp add: x)
  qed
qed

lemma num_mul_negbig:
  assumes "x = NInf \<or> (\<exists>v. x = Fin v \<and> v \<le> - pow2 39)"
  shows "num_mul x (Fin 12) = NInf \<or> (\<exists>v. num_mul x (Fin 12) = Fin v \<and> v \<le> - pow2 39)"
proof -
  from assms show ?thesis
  proof
    assume "x = NInf" then show ?thesis by simp
  next
    assume "\<exists>v. x = Fin v \<and> v \<le> - pow2 39"
    then obtain v where x: "x = Fin v" and v: "v \<le> - pow2 39" by blast
    have "v < 0" using v pow2_pos[of 39] by simp
    then have "v * 12 \<le> - pow2 39" using v by simp
    from round64_negbig[OF this] show ?thesis by (simp add: x)
  qed
qed

lemma num_add_negbig:
  assumes "x = NInf \<or> (\<exists>v. x = Fin v \<and> v \<le> - pow2 39)"
  shows "num_add x (Fin 12) = NInf \<or> (\<exists>v. num_add x (Fin 12) = Fin v \<and> v \<le> - pow2 38)"
proof -
  from assms show ?thesis
  proof
    assume "x = NInf" then show ?thesis by simp
  next
    assume "\<exists>v. x = Fin v \<and> v \<le> - pow2 39"
    then obtain v where x: "x = Fin v" and v: "v \<le> - pow2 39" by blast
    have "pow2 39 = pow2 38 + pow2 38" by (simp add: pow2_def)
    moreover have "12 \<le> pow2 38" by (simp add: pow2_def)
    ultimately have "v + 12 \<le> - pow2 38" using v by simp
    from round64_negbig[OF this] show ?thesis by (simp add: x)
  qed
qed

lemma negbig_weaken:
  assumes "x = NInf \<or> (\<exists>v. x = Fin v \<and> v \<le> - pow2 39)"
  shows "x = NInf \<or> (\<exists>v. x = Fin v \<and> v \<le> - pow2 38)"
proof -
  have "pow2 38 \<le> pow2 39" by (rule pow2_mono) simp
  with assms show ?thesis by auto
qed

lemma length_slice_le:
  assumes "clampIndex (int (length xs)) stop - clampIndex (int (length xs)) start \<le> n"
  shows "length (slice xs start stop) \<le> nat n"
  using assms by (simp add: slice_def Let_def)

lemma pageStart_whole:
  assumes "\<bar>p\<bar> \<le> 2 ^ 40"
  shows "num_mul (num_sub (Fin (of_int p)) (Fin 1)) (Fin 12) = Fin (of_int (12 * (p - 1)))"
    and "num_add (Fin (of_int (12 * (p - 1)))) (Fin 12) = Fin (of_int (12 * p))"
proof -
  have a: "\<bar>p - 1\<bar> < 2 ^ 53" "\<bar>12 * (p - 1)\<bar> < 2 ^ 53" "\<bar>12 * p\<bar> < 2 ^ 53"
    using assms by simp_all
  have "num_sub (Fin (of_int p)) (Fin 1) = round64 (of_int (p - 1))"
    by (simp add: num_sub_def)
  also have "\<dots> = Fin (of_int (p - 1))" using a(1) by (rule round64_of_int)
  finally have s: "num_sub (Fin (of_int p)) (Fin 1) = Fin (of_int (p - 1))" .
  have "num_mul (Fin (of_int (p - 1))) (Fin 12) = round64 (of_int (12 * (p - 1)))"
    by (simp add: mult.commute)
  also have "\<dots> = Fin (of_int (12 * (p - 1)))" using a(2) by (rule round64_of_int)
  finally show "num_mul (num_sub (Fin (of_int p)) (Fin 1)) (Fin 12) = Fin (of_int (12 * (p - 1)))"
    by (simp only: s)
  have "num_add (Fin (of_int (12 * (p - 1)))) (Fin 12) = round64 (of_int (12 * p))"
    by (simp add: algebra_simps)
  also have "\<dots> = Fin (of_int (12 * p))" using a(3) by (rule round64_of_int)
  finally show "num_add (Fin (of_int (12 * (p - 1)))) (Fin 12) = Fin (of_int (12 * p))" .
qed

lemma length_page_whole:
  assumes "length xs < 2 ^ 32"
  shows "length (slice xs (num_mul (num_sub (Fin (of_int p)) (Fin 1)) (Fin 12))
                          (num_add (num_mul (num_sub (Fin (of_int p)) (Fin 1)) (Fin 12)) (Fin 12))) \<le> 12"
proof -
  define len where "len = int (length xs)"
  have len: "0 \<le> len" "len < 2 ^ 32" using assms by (simp_all add: len_def)
  define start where "start = num_mul (num_sub (Fin (of_int p)) (Fin 1)) (Fin 12)"
  define stop where "stop = num_add start (Fin 12)"
  have "clampIndex len stop - clampIndex len start \<le> 12"
  proof -
    consider "\<bar>p\<bar> \<le> 2 ^ 40" | "2 ^ 40 < p" | "p < - (2 ^ 40)" by linarith
    then show ?thesis
    proof cases
      case 1
      from pageStart_whole(1)[OF 1] have st: "start = Fin (of_int (12 * (p - 1)))"
        by (simp only: start_def)
      from pageStart_whole(2)[OF 1] have sp: "stop = Fin (of_int (12 * p))"
        by (simp only: stop_def st)
      show ?thesis unfolding st sp clampIndex_whole using len by (auto simp: max_def min_def)
    next
      case 2
      have "pow2 39 = of_int (2 ^ 39)" by (simp add: pow2_def)
      moreover have "(2::int) ^ 39 \<le> p - 1" using 2 by simp
      then have "(of_int (2 ^ 39) :: rat) \<le> of_int (p - 1)" by (simp only: of_int_le_iff)
      ultimately have "pow2 39 \<le> of_int (p - 1)" by simp
      moreover have "pow2 38 \<le> pow2 39" by (rule pow2_mono) simp
      ultimately have "pow2 38 \<le> of_int (p - 1)" by simp
      from round64_lower[OF this]
      have "num_sub (Fin (of_int p)) (Fin 1) = PInf
            \<or> (\<exists>v. num_sub (Fin (of_int p)) (Fin 1) = Fin v \<and> pow2 38 \<le> v)"
        by (simp add: num_sub_def)
      from num_mul_big[OF this] have b1: "start = PInf \<or> (\<exists>v. start = Fin v \<and> pow2 38 \<le> v)"
        by (simp only: start_def)
      from num_add_big[OF this] have b2: "stop = PInf \<or> (\<exists>v. stop = Fin v \<and> pow2 38 \<le> v)"
        by (simp only: stop_def)
      show ?thesis
        using clampIndex_big[OF b1 len] clampIndex_big[OF b2 len] by simp
    next
      case 3
      have "pow2 39 = of_int (2 ^ 39)" by (simp add: pow2_def)
      moreover have "p - 1 \<le> - ((2::int) ^ 39)" using 3 by simp
      then have "(of_int (p - 1) :: rat) \<le> of_int (- (2 ^ 39))" by (simp only: of_int_le_iff)
      ultimately have "of_int (p - 1) \<le> - pow2 39" by simp
      from round64_negbig[OF this]
      have "num_sub (Fin (of_int p)) (Fin 1) = NInf
            \<or> (\<exists>v. num_sub (Fin (of_int p)) (Fin 1) = Fin v \<and> v \<le> - pow2 39)"
        by (simp add: num_sub_def)
      from num_mul_negbig[OF this] have b1: "start = NInf \<or> (\<exists>v. start = Fin v \<and> v \<le> - pow2 39)"
        by (simp only: start_def)
      from num_add_negbig[OF this] have b2: "stop = NInf \<or> (\<exists>v. stop = Fin v \<and> v \<le> - pow2 38)"
        by (simp only: stop_def)
      show ?thesis
        using clampIndex_negbig[OF negbig_weaken[OF b1] len] clampIndex_negbig[OF b2 len] by simp
    qed
  qed
  then have "length (slice xs start stop) \<le> nat 12"
    unfolding len_def by (rule length_slice_le)
  then show ?thesis by (simp add: start_def stop_def)
qed

section \<open>When processData returns\<close>

lemma processRow_returns:
  "(\<exists>m'. processRow E hs m row = Inr m') \<longleftrightarrow> rowReturns hs row"
  by (auto simp: processRow_def rowReturns_def admitted_def rowMovement_def rowMaterial_def
        rowQuantity_def Let_def split: jsval.splits)

lemma processRows_returns:
  "(\<exists>m'. processRows E hs m rs = Inr m') \<longleftrightarrow> (\<forall>r \<in> set rs. rowReturns hs r)"
proof (induction rs arbitrary: m)
  case Nil
  then show ?case by simp
next
  case (Cons r rs)
  show ?case
  proof (cases "processRow E hs m r")
    case (Inl e)
    then have "\<not> rowReturns hs r" using processRow_returns[of E hs m r] by simp
    with Inl show ?thesis by simp
  next
    case (Inr m1)
    then have "rowReturns hs r" using processRow_returns[of E hs m r] by auto
    with Inr Cons.IH[of m1] show ?thesis by simp
  qed
qed

lemma processData_returns:
  "(\<exists>out. processData E response = Inr out) \<longleftrightarrow>
     (\<forall>h \<in> set required. h \<in> set (headers response)) \<and>
     (\<forall>r \<in> set (rows response). rowReturns (headers response) r)"
proof (cases "\<exists>h \<in> set required. indexOf (headers response) h = - 1")
  case True
  then show ?thesis by (auto simp: processData_def indexOf_absent)
next
  case False
  then have a: "\<forall>h \<in> set required. h \<in> set (headers response)" by (simp add: indexOf_absent)
  have "(\<exists>out. processData E response = Inr out)
        \<longleftrightarrow> (\<exists>m'. processRows E (headers response) [] (rows response) = Inr m')"
    using False by (auto simp: processData_def split: sum.splits)
  with a show ?thesis by (simp add: processRows_returns)
qed

section \<open>The number of pages\<close>

lemma roundHalfEven_error: "\<bar>of_int (roundHalfEven x) - x\<bar> \<le> 1 / 2"
proof -
  define f where "f = \<lfloor>x\<rfloor>"
  define d where "d = x - of_int f"
  have d: "0 \<le> d" "d < 1" by (simp_all add: d_def f_def) linarith
  have x: "x = of_int f + d" by (simp add: d_def)
  have "roundHalfEven x = f \<and> d \<le> 1 / 2 \<or> roundHalfEven x = f + 1 \<and> 1 / 2 \<le> d"
    unfolding roundHalfEven_def Let_def f_def[symmetric] d_def[symmetric] by auto
  then show ?thesis using d unfolding x by auto
qed

lemma ilog2_less:
  assumes "0 < a" and "a < pow2 k" shows "ilog2 a < k"
proof -
  have "pow2 (ilog2 a) < pow2 k" using ilog2_le[OF assms(1)] assms(2) by simp
  then show ?thesis using pow2_mono[of k "ilog2 a"] by (cases "ilog2 a < k") auto
qed

lemma round64_near:
  assumes "1 / 16 \<le> r" and "r < pow2 32"
  shows "\<exists>v. round64 r = Fin v \<and> \<bar>v - r\<bar> \<le> 1 / 16"
proof -
  have pos: "0 < r" "\<bar>r\<bar> = r" using assms(1) by simp_all
  have lo: "1 / 18446744073709551616 \<le> \<bar>r\<bar>" using assms(1) by simp
  have "pow2 32 = 4294967296" by (simp add: pow2_def)
  then have hi: "\<bar>r\<bar> < 18446744073709551616" using assms(2) pos by simp
  define q where "q = pow2 (ilog2 r - 52)"
  define v where "v = of_int (roundHalfEven (r / q)) * q"
  have r: "round64 r = Fin v"
    using round64_middle[OF lo hi] pos by (simp add: Let_def q_def v_def)
  have qpos: "0 < q" by (simp add: q_def pow2_pos)
  have "ilog2 r < 32" using pos(1) assms(2) by (rule ilog2_less)
  then have "q \<le> pow2 (- 21)" unfolding q_def by (intro pow2_mono) simp
  also have "\<dots> \<le> 1 / 8" by (simp add: pow2_def)
  finally have q8: "q \<le> 1 / 8" .
  have "v - r = (of_int (roundHalfEven (r / q)) - r / q) * q"
    using qpos by (simp add: v_def left_diff_distrib)
  then have "\<bar>v - r\<bar> = \<bar>of_int (roundHalfEven (r / q)) - r / q\<bar> * \<bar>q\<bar>"
    by (simp only: abs_mult)
  then have "\<bar>v - r\<bar> = \<bar>of_int (roundHalfEven (r / q)) - r / q\<bar> * q"
    using qpos by simp
  also have "\<dots> \<le> (1 / 2) * q"
    using roundHalfEven_error[of "r / q"] qpos by (intro mult_right_mono) simp_all
  also have "\<dots> \<le> 1 / 16" using q8 by simp
  finally show ?thesis using r by blast
qed

lemma ceil_round64_twelfths:
  assumes "n < 2 ^ 32"
  shows "Math_ceil (round64 (of_nat n / 12)) = Fin (of_int ((int n + 11) div 12))"
proof -
  define k m where "k = int n div 12" and "m = int n mod 12"
  have nm: "int n = 12 * k + m" and m: "0 \<le> m" "m < 12" by (simp_all add: k_def m_def)
  have k0: "0 \<le> k" by (simp add: k_def)
  have nb: "int n < 2 ^ 32" using assms by (metis of_nat_less_iff of_nat_numeral of_nat_power)
  have r: "(of_nat n :: rat) / 12 = of_int k + of_int m / 12"
  proof -
    have "(of_nat n :: rat) = of_int (int n)" by simp
    also have "\<dots> = of_int (12 * k + m)" by (simp only: nm)
    finally show ?thesis by simp
  qed
  show ?thesis
  proof (cases "m = 0")
    case True
    then have c: "(int n + 11) div 12 = k" using nm by simp
    have "\<bar>k\<bar> < 2 ^ 53" using nm True nb k0 by simp
    then have "round64 (of_int k) = Fin (of_int k)" by (rule round64_of_int)
    then show ?thesis unfolding r c using True by simp
  next
    case False
    then have m1: "1 \<le> m" using m by simp
    have c: "(int n + 11) div 12 = k + 1"
    proof -
      have "int n + 11 = 12 * (k + 1) + (m - 1)" using nm by simp
      moreover have "0 \<le> m - 1" "m - 1 < 12" using m1 m by simp_all
      ultimately show ?thesis by (metis div_mult_self2 add.commute div_pos_pos_trivial add_cancel_right_right zero_neq_numeral mult.commute)
    qed
    define x :: rat where "x = of_nat n / 12"
    have xl: "of_int k + 1 / 12 \<le> x" and xu: "x \<le> of_int k + 11 / 12"
    proof -
      have "(1::rat) \<le> of_int m" using m1 by simp
      then show "of_int k + 1 / 12 \<le> x" unfolding x_def r by simp
      have "m \<le> 11" using m by simp
      then have "(of_int m :: rat) \<le> 11" by (metis of_int_le_iff of_int_numeral)
      then show "x \<le> of_int k + 11 / 12" unfolding x_def r by simp
    qed
    have "pow2 32 = 4294967296" by (simp add: pow2_def)
    moreover have "x < 4294967296"
    proof -
      have "(of_int (int n) :: rat) < of_int (2 ^ 32)" using nb by (simp only: of_int_less_iff)
      then show ?thesis by (simp add: x_def)
    qed
    ultimately have xb: "x < pow2 32" by simp
    have "(0::rat) \<le> of_int k" using k0 by simp
    then have "1 / 16 \<le> x" using xl by simp
    from round64_near[OF this xb] obtain v where v: "round64 x = Fin v" and e: "\<bar>v - x\<bar> \<le> 1 / 16" by blast
    have "of_int k < v" "v \<le> of_int k + 1" using e xl xu by linarith+
    then have "\<lceil>v\<rceil> = k + 1" by (simp add: ceiling_eq_iff)
    then show ?thesis unfolding c x_def[symmetric] v by simp
  qed
qed


section \<open>The claims of the specification\<close>

subsection \<open>C1: balance and totals\<close>

text \<open>
  C1, as amended. For every summary that \<open>processData\<close> returns, the balance is the
  difference that the subtraction of \<open>totalOut\<close> from \<open>totalIn\<close> gives, and
  \<open>totalOut\<close> is at least zero. \<open>totalIn\<close> is at least zero when every admitted
  receipt (movement type 101) of that material has a quantity that is at least zero.
\<close>

theorem balance_and_totals:
  assumes "processData E response = Inr out" and "s \<in> set out"
  shows "balance s = num_sub (totalIn s) (totalOut s) \<and>
         num_le (Fin 0) (totalOut s) \<and>
         ((\<forall>r \<in> set (inboundRows (headers response) (material s) (rows response)).
              num_le (Fin 0) (rowQuantity (headers response) r))
            \<longrightarrow> num_le (Fin 0) (totalIn s))"
proof -
  let ?hs = "headers response" and ?rs = "rows response"
  note f = processData_fields[OF assms]
  have "\<forall>x \<in> set (map (\<lambda>r. Math_abs (rowQuantity ?hs r)) (outboundRows ?hs (material s) ?rs)).
          num_le (Fin 0) x"
    by (auto simp: outboundRows_def admitted_def Math_abs_nonneg)
  then have "num_le (Fin 0) (totalOut s)"
    unfolding f(3) by (intro foldl_num_add_nonneg) simp_all
  moreover have "num_le (Fin 0) (totalIn s)"
    if "\<forall>r \<in> set (inboundRows ?hs (material s) ?rs). num_le (Fin 0) (rowQuantity ?hs r)"
    unfolding f(2) using that by (intro foldl_num_add_nonneg) simp_all
  ultimately show ?thesis using f(4) by blast
qed

text \<open>The example of the specification satisfies the hypotheses of C1.\<close>

theorem balance_and_totals_witness:
  "processData exampleEnv boltResponse = Inr [boltSummary] \<and>
   balance boltSummary = num_sub (totalIn boltSummary) (totalOut boltSummary) \<and>
   balance boltSummary = Fin 6 \<and>
   num_le (Fin 0) (totalOut boltSummary) \<and> num_le (Fin 0) (totalIn boltSummary)"
proof -
  have e: "processData exampleEnv boltResponse = Inr [boltSummary]" by code_simp
  have m: "boltSummary \<in> set [boltSummary]" by simp
  have q: "\<forall>r \<in> set (inboundRows (headers boltResponse) (material boltSummary) (rows boltResponse)).
             num_le (Fin 0) (rowQuantity (headers boltResponse) r)" by code_simp
  have b: "balance boltSummary = Fin 6" by code_simp
  from balance_and_totals[OF e m] q e b show ?thesis by blast
qed

text \<open>
  C1 as stated fails: \<open>totalIn\<close> adds the quantity of a receipt with its sign, so one
  receipt of -5 gives a negative \<open>totalIn\<close>.
\<close>

theorem negative_receipt_counterexample:
  "processData exampleEnv negativeResponse = Inr [negativeSummary] \<and>
   \<not> num_le (Fin 0) (totalIn negativeSummary)"
  by code_simp


subsection \<open>C2: the admission of a row\<close>

text \<open>
  C2, as amended. A row is admitted exactly when its Movement Type cell is a string
  that, trimmed, is \<open>101\<close> or \<open>201\<close>, its Material cell is truthy (a non-empty string,
  or a number other than 0), and the conversion of its Quantity cell to a number is not
  NaN; an infinite quantity is admitted. A row that is not admitted and whose Movement
  Type cell is not a number leaves the map as it is, without an error. When
  \<open>processData\<close> returns, the materials are those of the admitted rows, and the
  transaction lists and totals of each material are made of its admitted rows only.
\<close>

theorem admission_rule:
  "(admitted hs row \<longleftrightarrow>
      (\<exists>mt. cellAt row (indexOf hs ''Movement Type'') = Str mt \<and> (trim mt = ''101'' \<or> trim mt = ''201''))
      \<and> truthy (cellAt row (indexOf hs ''Material''))
      \<and> \<not> isNaN (Number (cellAt row (indexOf hs ''Quantity''))))
   \<and> (\<not> admitted hs row \<and> (\<forall>n. cellAt row (indexOf hs ''Movement Type'') \<noteq> Num n)
        \<longrightarrow> processRow E hs m row = Inr m)
   \<and> (processData E response = Inr out \<longrightarrow>
        set (map material out) =
          rowMaterial (headers response) ` {r \<in> set (rows response). admitted (headers response) r}
        \<and> (\<forall>s \<in> set out.
             mset (inTransactions s) =
               mset (map (rowTransaction E (headers response))
                      (inboundRows (headers response) (material s) (rows response)))
           \<and> mset (outTransactions s) =
               mset (map (rowTransaction E (headers response))
                      (outboundRows (headers response) (material s) (rows response)))
           \<and> totalIn s = foldl num_add (Fin 0)
               (map (rowQuantity (headers response))
                  (inboundRows (headers response) (material s) (rows response)))
           \<and> totalOut s = foldl num_add (Fin 0)
               (map (\<lambda>r. Math_abs (rowQuantity (headers response) r))
                  (outboundRows (headers response) (material s) (rows response)))))"
proof (intro conjI impI ballI)
  show "admitted hs row \<longleftrightarrow>
      (\<exists>mt. cellAt row (indexOf hs ''Movement Type'') = Str mt \<and> (trim mt = ''101'' \<or> trim mt = ''201''))
      \<and> truthy (cellAt row (indexOf hs ''Material''))
      \<and> \<not> isNaN (Number (cellAt row (indexOf hs ''Quantity'')))"
    by (rule admitted_iff)
next
  assume "\<not> admitted hs row \<and> (\<forall>n. cellAt row (indexOf hs ''Movement Type'') \<noteq> Num n)"
  then show "processRow E hs m row = Inr m" by (simp add: processRow_skip)
next
  assume "processData E response = Inr out"
  then show "set (map material out) =
          rowMaterial (headers response) ` {r \<in> set (rows response). admitted (headers response) r}"
    by (rule processData_materials)
next
  fix s assume a: "processData E response = Inr out" "s \<in> set out"
  note f = processData_fields[OF a]
  show "mset (inTransactions s) =
               mset (map (rowTransaction E (headers response))
                      (inboundRows (headers response) (material s) (rows response)))"
    unfolding f(5) by (rule mset_Array_sort)
  show "mset (outTransactions s) =
               mset (map (rowTransaction E (headers response))
                      (outboundRows (headers response) (material s) (rows response)))"
    unfolding f(6) by (rule mset_Array_sort)
  show "totalIn s = foldl num_add (Fin 0)
               (map (rowQuantity (headers response))
                  (inboundRows (headers response) (material s) (rows response)))"
    by (rule f(2))
  show "totalOut s = foldl num_add (Fin 0)
               (map (\<lambda>r. Math_abs (rowQuantity (headers response) r))
                  (outboundRows (headers response) (material s) (rows response)))"
    by (rule f(3))
qed

text \<open>The example of the specification: the row with the quantity \<open>x\<close> is skipped.\<close>

theorem admission_rule_witness:
  "processRow exampleEnv exampleHeaders []
     [CStr ''M1'', CStr ''Bolt'', CStr ''x'', CStr ''EA'', CStr ''101''] = Inr [] \<and>
   processData exampleEnv boltResponse = Inr [boltSummary] \<and>
   set (map material [boltSummary]) = {Str ''M1''} \<and>
   mset (inTransactions boltSummary) = {#exampleTransaction Undefined (Fin 10)#} \<and>
   mset (outTransactions boltSummary) = {#exampleTransaction Undefined (Fin 4)#} \<and>
   totalIn boltSummary = Fin 10 \<and> totalOut boltSummary = Fin 4"
proof -
  let ?bad = "[CStr ''M1'', CStr ''Bolt'', CStr ''x'', CStr ''EA'', CStr ''101'']"
  have 0: "cellAt ?bad (indexOf exampleHeaders ''Movement Type'') = Str ''101''" by code_simp
  have "\<not> admitted exampleHeaders ?bad" by code_simp
  with 0 have 1: "\<not> admitted exampleHeaders ?bad \<and>
           (\<forall>n. cellAt ?bad (indexOf exampleHeaders ''Movement Type'') \<noteq> Num n)"
    by simp
  have 2: "processData exampleEnv boltResponse = Inr [boltSummary]" by code_simp
  have 3: "boltSummary \<in> set [boltSummary]" by simp
  have 4: "rowMaterial (headers boltResponse) `
             {r \<in> set (rows boltResponse). admitted (headers boltResponse) r} = {Str ''M1''}"
    by code_simp
  have 5: "map (rowTransaction exampleEnv (headers boltResponse))
             (inboundRows (headers boltResponse) (material boltSummary) (rows boltResponse)) =
           [exampleTransaction Undefined (Fin 10)]"
    by code_simp
  have 6: "map (rowTransaction exampleEnv (headers boltResponse))
             (outboundRows (headers boltResponse) (material boltSummary) (rows boltResponse)) =
           [exampleTransaction Undefined (Fin 4)]"
    by code_simp
  have 7: "totalIn boltSummary = Fin 10 \<and> totalOut boltSummary = Fin 4" by code_simp
  from admission_rule[of exampleHeaders ?bad exampleEnv "[]" boltResponse "[boltSummary]"]
    1 2 3 4 5 6 7
  show ?thesis by simp
qed

text \<open>
  C2 as stated fails: the string \<open>Infinity\<close> does not convert to a finite number, yet
  the row is admitted and reaches the total and the transaction list.
\<close>

theorem infinite_quantity_counterexample:
  "\<not> specValid exampleHeaders infinityRow \<and>
   processData exampleEnv \<lparr> headers = exampleHeaders, rows = [infinityRow] \<rparr> = Inr [infinitySummary] \<and>
   totalIn infinitySummary = PInf \<and>
   inTransactions infinitySummary = [exampleTransaction Undefined PInf]"
  by code_simp


subsection \<open>C3: what is accumulated\<close>

text \<open>
  C3. For every summary that \<open>processData\<close> returns, \<open>totalIn\<close> is the sum, in input
  order, of the quantities as converted (with their sign) of the material's admitted
  rows of type 101, \<open>totalOut\<close> is the sum of the absolute values of the quantities of
  its admitted rows of type 201, and the quantities stored in the transaction lists are
  the absolute values of the quantities of those rows.
\<close>

theorem accumulation:
  assumes "processData E response = Inr out" and "s \<in> set out"
  shows "totalIn s = foldl num_add (Fin 0)
           (map (rowQuantity (headers response))
              (inboundRows (headers response) (material s) (rows response))) \<and>
         totalOut s = foldl num_add (Fin 0)
           (map (\<lambda>r. Math_abs (rowQuantity (headers response) r))
              (outboundRows (headers response) (material s) (rows response))) \<and>
         mset (map quantity (inTransactions s)) =
           mset (map (\<lambda>r. Math_abs (rowQuantity (headers response) r))
              (inboundRows (headers response) (material s) (rows response))) \<and>
         mset (map quantity (outTransactions s)) =
           mset (map (\<lambda>r. Math_abs (rowQuantity (headers response) r))
              (outboundRows (headers response) (material s) (rows response)))"
proof -
  note f = processData_fields[OF assms]
  have q: "\<And>r. quantity (rowTransaction E (headers response) r) = Math_abs (rowQuantity (headers response) r)"
    by (simp add: rowTransaction_def mkTransaction_def rowQuantity_def)
  have "mset (map quantity (inTransactions s)) =
          mset (map (\<lambda>r. Math_abs (rowQuantity (headers response) r))
              (inboundRows (headers response) (material s) (rows response)))"
    unfolding f(5) by (simp add: mset_Array_sort multiset.map_comp comp_def q)
  moreover have "mset (map quantity (outTransactions s)) =
          mset (map (\<lambda>r. Math_abs (rowQuantity (headers response) r))
              (outboundRows (headers response) (material s) (rows response)))"
    unfolding f(6) by (simp add: mset_Array_sort multiset.map_comp comp_def q)
  ultimately show ?thesis using f(2,3) by simp
qed

text \<open>A receipt of -5: the total takes -5, the transaction 5.\<close>

theorem accumulation_witness:
  "processData exampleEnv negativeResponse = Inr [negativeSummary] \<and>
   totalIn negativeSummary = foldl num_add (Fin 0) [Fin (- 5)] \<and>
   totalOut negativeSummary = foldl num_add (Fin 0) [] \<and>
   mset (map quantity (inTransactions negativeSummary)) = {#Fin 5#} \<and>
   mset (map quantity (outTransactions negativeSummary)) = {#}"
proof -
  have 1: "processData exampleEnv negativeResponse = Inr [negativeSummary]" by code_simp
  have 2: "negativeSummary \<in> set [negativeSummary]" by simp
  have 3: "inboundRows (headers negativeResponse) (material negativeSummary) (rows negativeResponse) =
             [[CStr ''M1'', CStr ''Bolt'', CNum (Fin (- 5)), CStr ''EA'', CStr ''101'']]"
    by code_simp
  have 4: "outboundRows (headers negativeResponse) (material negativeSummary) (rows negativeResponse) = []"
    by code_simp
  have 5: "rowQuantity (headers negativeResponse)
             [CStr ''M1'', CStr ''Bolt'', CNum (Fin (- 5)), CStr ''EA'', CStr ''101''] = Fin (- 5)"
    by code_simp
  from accumulation[OF 1 2] 1 show ?thesis
    unfolding 3 4 by (simp add: 5)
qed


subsection \<open>C4: description and unit\<close>

text \<open>
  C4, as amended. The description of a material is the Material Description cell of the
  first admitted row of that material if that cell is truthy, and \<open>No Description\<close>
  otherwise; its unit is the Unit of Entry cell of that same row, or \<open>N/A\<close>. Later
  rows change neither.
\<close>

theorem first_row_sets_description:
  assumes "processData E response = Inr out" and "s \<in> set out"
  shows "\<exists>r rest. materialRows (headers response) (material s) (rows response) = r # rest \<and>
           materialDescription s =
             orElse (cellAt r (indexOf (headers response) ''Material Description''))
                    (Str ''No Description'') \<and>
           unit s = orElse (cellAt r (indexOf (headers response) ''Unit of Entry'')) (Str ''N/A'')"
  using processData_fields(1)[OF assms] .

text \<open>Two receipts of one material, the first without a description.\<close>

theorem first_row_sets_description_witness:
  "processData exampleEnv lateDescriptionResponse = Inr [lateDescriptionSummary] \<and>
   materialRows (headers lateDescriptionResponse) (material lateDescriptionSummary)
     (rows lateDescriptionResponse) = rows lateDescriptionResponse \<and>
   materialDescription lateDescriptionSummary = Str ''No Description'' \<and>
   unit lateDescriptionSummary = Str ''EA''"
proof -
  have 1: "processData exampleEnv lateDescriptionResponse = Inr [lateDescriptionSummary]" by code_simp
  have 2: "lateDescriptionSummary \<in> set [lateDescriptionSummary]" by simp
  have 3: "materialRows (headers lateDescriptionResponse) (material lateDescriptionSummary)
     (rows lateDescriptionResponse) = rows lateDescriptionResponse" by code_simp
  have 4: "rows lateDescriptionResponse =
             [[CStr ''M1'', CStr [], CNum (Fin 1), CStr ''EA'', CStr ''101''],
              [CStr ''M1'', CStr ''Bolt'', CNum (Fin 2), CStr ''EA'', CStr ''101'']]"
    by (simp add: lateDescriptionResponse_def)
  have 5: "orElse (cellAt [CStr ''M1'', CStr [], CNum (Fin 1), CStr ''EA'', CStr ''101'']
              (indexOf (headers lateDescriptionResponse) ''Material Description'')) (Str ''No Description'')
           = Str ''No Description''" by code_simp
  have 6: "orElse (cellAt [CStr ''M1'', CStr [], CNum (Fin 1), CStr ''EA'', CStr ''101'']
              (indexOf (headers lateDescriptionResponse) ''Unit of Entry'')) (Str ''N/A'')
           = Str ''EA''" by code_simp
  from first_row_sets_description[OF 1 2] 1 3 show ?thesis
    unfolding 3 4 by (auto simp: 5 6)
qed

text \<open>
  C4 as stated fails: when the first admitted row of a material has an empty
  description and a later one has \<open>Bolt\<close>, the summary keeps the placeholder, where
  the first non-empty description among the admitted rows is \<open>Bolt\<close>.
\<close>

theorem late_description_counterexample:
  "processData exampleEnv lateDescriptionResponse = Inr [lateDescriptionSummary] \<and>
   materialDescription lateDescriptionSummary = Str ''No Description'' \<and>
   specDescription (headers lateDescriptionResponse) (material lateDescriptionSummary)
     (rows lateDescriptionResponse) = Str ''Bolt''"
  by code_simp


subsection \<open>C5: the order of the transaction lists\<close>

text \<open>
  C5, as amended. When the posting date of every admitted row of a material is a valid
  date, both transaction lists of the material are in descending order of posting date,
  and the transactions of one date keep the order of their rows in the input.
\<close>

theorem sorted_by_date_stable:
  assumes "processData E response = Inr out" and "s \<in> set out"
    and "\<forall>r \<in> set (materialRows (headers response) (material s) (rows response)).
           \<not> isNaN (getTime E (cellAt r (indexOf (headers response) ''Posting Date'')))"
  shows "sortedByDateDesc E (inTransactions s) \<and> sortedByDateDesc E (outTransactions s) \<and>
         (\<forall>d. filter (\<lambda>t. getTime E (postingDate t) = d) (inTransactions s) =
              filter (\<lambda>t. getTime E (postingDate t) = d)
                (map (rowTransaction E (headers response))
                   (inboundRows (headers response) (material s) (rows response)))) \<and>
         (\<forall>d. filter (\<lambda>t. getTime E (postingDate t) = d) (outTransactions s) =
              filter (\<lambda>t. getTime E (postingDate t) = d)
                (map (rowTransaction E (headers response))
                   (outboundRows (headers response) (material s) (rows response))))"
proof -
  let ?hs = "headers response" and ?rs = "rows response"
  let ?ins = "map (rowTransaction E ?hs) (inboundRows ?hs (material s) ?rs)"
  let ?outs = "map (rowTransaction E ?hs) (outboundRows ?hs (material s) ?rs)"
  note f = processData_fields[OF assms(1,2)]
  have vi: "\<forall>y \<in> set ?ins. \<not> isNaN (getTime E (postingDate y))"
    using assms(3) by (auto simp: postingDate_rowTransaction inboundRows_def materialRows_def)
  have vo: "\<forall>y \<in> set ?outs. \<not> isNaN (getTime E (postingDate y))"
    using assms(3) by (auto simp: postingDate_rowTransaction outboundRows_def materialRows_def)
  show ?thesis
    unfolding f(5) f(6)
    using sortedByDateDesc_Array_sort[OF vi] sortedByDateDesc_Array_sort[OF vo]
      Array_sort_byDate(2)[OF vi] Array_sort_byDate(2)[OF vo]
    by simp
qed

text \<open>Two dated receipts, the earlier one first in the input.\<close>

theorem sorted_by_date_stable_witness:
  "processData exampleEnv datedResponse = Inr [datedSummary] \<and>
   sortedByDateDesc exampleEnv (inTransactions datedSummary) \<and>
   inTransactions datedSummary =
     [exampleTransaction (Str ''2024-06-01'') (Fin 3), exampleTransaction (Str ''2024-01-01'') (Fin 1)]"
proof -
  have 1: "processData exampleEnv datedResponse = Inr [datedSummary]" by code_simp
  have 2: "datedSummary \<in> set [datedSummary]" by simp
  have 3: "\<forall>r \<in> set (materialRows (headers datedResponse) (material datedSummary) (rows datedResponse)).
           \<not> isNaN (getTime exampleEnv (cellAt r (indexOf (headers datedResponse) ''Posting Date'')))"
    by code_simp
  have 4: "inTransactions datedSummary =
     [exampleTransaction (Str ''2024-06-01'') (Fin 3), exampleTransaction (Str ''2024-01-01'') (Fin 1)]"
    by (simp add: datedSummary_def)
  from sorted_by_date_stable[OF 1 2 3] 1 4 show ?thesis by blast
qed

text \<open>
  C5 as stated fails: a row without a posting date has an invalid date, the comparator
  gives NaN against it, which counts as 0, and the receipt of June stays behind the
  receipt of January.
\<close>

theorem missing_date_counterexample:
  "processData exampleEnv missingDateResponse = Inr [missingDateSummary] \<and>
   inTransactions missingDateSummary =
     [exampleTransaction (Str ''2024-01-01'') (Fin 1),
      exampleTransaction Undefined (Fin 2),
      exampleTransaction (Str ''2024-06-01'') (Fin 3)] \<and>
   \<not> sortedByDateDesc exampleEnv (inTransactions missingDateSummary)"
  by code_simp



subsection \<open>C6: pages\<close>

text \<open>
  C6, as amended. A page number is a JavaScript number. In every state whose base
  filter returns a list (of fewer than \<open>2 ^ 32\<close> items, as every JavaScript array has),
  \<open>totalPages\<close> is the ceiling of the number of filtered items divided by 12, and
  \<open>goToPage n\<close> sets the current page to \<open>n\<close> when \<open>0 < n\<close> and \<open>n \<le> totalPages\<close>, and
  changes nothing otherwise; for a whole number \<open>n\<close> the test is
  \<open>1 \<le> n \<le> totalPages\<close>. In a state whose base filter throws, \<open>totalPages\<close> throws
  the same error, and so does \<open>goToPage n\<close> when \<open>0 < n\<close>, while it changes nothing
  otherwise. In every state \<open>nextPage\<close> and \<open>prevPage\<close> are \<open>goToPage\<close> at the current
  page plus one and minus one.
\<close>

theorem pagination:
  "(baseFilteredInventory st = Inr items \<and> length items < 2 ^ 32 \<longrightarrow>
      (\<exists>n. totalPages st = Inr (Fin (of_int n)) \<and> n = (int (length items) + 11) div 12 \<and>
           12 * (n - 1) < int (length items) \<and> int (length items) \<le> 12 * n \<and>
           goToPage st page =
             Inr (if num_less (Fin 0) page \<and> num_le page (Fin (of_int n))
                  then st\<lparr> currentPage := page \<rparr> else st) \<and>
           goToPage st (Fin (of_int p)) =
             Inr (if 1 \<le> p \<and> p \<le> n then st\<lparr> currentPage := Fin (of_int p) \<rparr> else st))) \<and>
   (baseFilteredInventory st = Inl e \<longrightarrow>
      totalPages st = Inl e \<and>
      goToPage st page = (if num_less (Fin 0) page then Inl e else Inr st)) \<and>
   nextPage st = goToPage st (num_add (currentPage st) (Fin 1)) \<and>
   prevPage st = goToPage st (num_sub (currentPage st) (Fin 1))"
proof (intro conjI impI)
  assume "baseFilteredInventory st = Inr items \<and> length items < 2 ^ 32"
  then have b: "baseFilteredInventory st = Inr items" and l: "length items < 2 ^ 32" by simp_all
  let ?n = "(int (length items) + 11) div 12"
  have t: "totalPages st = Inr (Fin (of_int ?n))"
    using b ceil_round64_twelfths[OF l] by (simp add: totalPages_def itemsPerPage_def)
  have "12 * (?n - 1) < int (length items)" "int (length items) \<le> 12 * ?n"
    using pages_bounds[of "int (length items)"] by simp_all
  moreover have g: "goToPage st q =
             Inr (if num_less (Fin 0) q \<and> num_le q (Fin (of_int ?n))
                  then st\<lparr> currentPage := q \<rparr> else st)" for q
    by (simp add: goToPage_def t)
  have "goToPage st (Fin (of_int p)) =
             Inr (if 1 \<le> p \<and> p \<le> ?n then st\<lparr> currentPage := Fin (of_int p) \<rparr> else st)"
  proof -
    have "(0::rat) < of_int p \<longleftrightarrow> 1 \<le> p" by (simp add: int_one_le_iff_zero_less)
    then show ?thesis unfolding g by simp
  qed
  ultimately show "\<exists>n. totalPages st = Inr (Fin (of_int n)) \<and> n = (int (length items) + 11) div 12 \<and>
           12 * (n - 1) < int (length items) \<and> int (length items) \<le> 12 * n \<and>
           goToPage st page =
             Inr (if num_less (Fin 0) page \<and> num_le page (Fin (of_int n))
                  then st\<lparr> currentPage := page \<rparr> else st) \<and>
           goToPage st (Fin (of_int p)) =
             Inr (if 1 \<le> p \<and> p \<le> n then st\<lparr> currentPage := Fin (of_int p) \<rparr> else st)"
    using t g[of page] by blast
next
  assume b: "baseFilteredInventory st = Inl e"
  then show t: "totalPages st = Inl e" by (simp add: totalPages_def)
  then show "goToPage st page = (if num_less (Fin 0) page then Inl e else Inr st)"
    by (simp add: goToPage_def)
next
  show "nextPage st = goToPage st (num_add (currentPage st) (Fin 1))" by (simp add: nextPage_def)
  show "prevPage st = goToPage st (num_sub (currentPage st) (Fin 1))" by (simp add: prevPage_def)
qed

text \<open>
  One item: one page; page 2, page 0 and NaN are rejected. With a numeric description
  and a search term the base filter throws.
\<close>

theorem pagination_witness:
  "baseFilteredInventory exampleState = Inr [boltSummary] \<and>
   totalPages exampleState = Inr (Fin 1) \<and>
   goToPage exampleState (Fin 2) = Inr exampleState \<and>
   goToPage exampleState (Fin 0) = Inr exampleState \<and>
   goToPage exampleState NaN = Inr exampleState \<and>
   goToPage exampleState (Fin 1) = Inr (exampleState\<lparr> currentPage := Fin 1 \<rparr>) \<and>
   nextPage exampleState = Inr exampleState \<and>
   baseFilteredInventory numericDescriptionState = Inl TypeError \<and>
   totalPages numericDescriptionState = Inl TypeError \<and>
   goToPage numericDescriptionState (Fin 1) = Inl TypeError \<and>
   goToPage numericDescriptionState (Fin 0) = Inr numericDescriptionState"
proof -
  have 1: "baseFilteredInventory exampleState = Inr [boltSummary]" by code_simp
  have 2: "currentPage exampleState = Fin 1" by (simp add: exampleState_def)
  have 3: "baseFilteredInventory numericDescriptionState = Inl TypeError" by code_simp
  have 4: "num_add (Fin 1) (Fin 1) = Fin 2" by code_simp
  note a = pagination[of exampleState "[boltSummary]" _ _ TypeError]
  note b = pagination[of numericDescriptionState "[]" _ 0 TypeError]
  from a[of NaN 2] a[of NaN 0] a[of NaN 1] b[of "Fin 1"] b[of "Fin 0"] 1 2 3 4
  show ?thesis by simp
qed

text \<open>
  C6 as stated fails: with one page, \<open>goToPage\<close> at one half stores one half, which is
  not between 1 and the number of pages.
\<close>

theorem half_page_counterexample:
  "totalPages exampleState = Inr (Fin 1) \<and>
   goToPage exampleState (Fin (1 / 2)) = Inr (exampleState\<lparr> currentPage := Fin (1 / 2) \<rparr>) \<and>
   currentPage exampleState = Fin 1 \<and>
   \<not> num_le (Fin 1) (Fin (1 / 2))"
proof -
  have "totalPages exampleState = Inr (Fin 1)" by code_simp
  moreover have "goToPage exampleState (Fin (1 / 2)) = Inr (exampleState\<lparr> currentPage := Fin (1 / 2) \<rparr>)"
    by code_simp
  moreover have "currentPage exampleState = Fin 1" by (simp add: exampleState_def)
  ultimately show ?thesis by simp
qed

subsection \<open>C7: missing columns\<close>

text \<open>
  C7. When a required column is absent from the headers, \<open>processData\<close> fails with the
  error whose message lists the required column names, and \<open>loadInventory\<close> stores
  that message, clears the loading flag and leaves \<open>inventoryData\<close> as it was.
\<close>

theorem schema_error:
  assumes "h \<in> set required" and "h \<notin> set (headers response)"
  shows "processData E response = Inl (Error schemaMessage) \<and>
         loadInventory E now st (HttpResponse response) =
           st\<lparr> loading := False, error := Some schemaMessage \<rparr> \<and>
         inventoryData (loadInventory E now st (HttpResponse response)) = inventoryData st \<and>
         schemaMessage = ''Data format is incorrect. Missing columns. Required: Material, Material Description, Quantity, Unit of Entry, Movement Type.'' \<and>
         (\<forall>c \<in> set required. str_includes schemaMessage c)"
proof -
  have "\<exists>h \<in> set required. indexOf (headers response) h = - 1"
    using assms by (auto simp: indexOf_absent)
  then have p: "processData E response = Inl (Error schemaMessage)"
    by (simp add: processData_def)
  then have l: "loadInventory E now st (HttpResponse response) =
           st\<lparr> loading := False, error := Some schemaMessage \<rparr>"
    by (simp add: loadInventory_def getInventoryData_def message_def Let_def)
  have m: "schemaMessage = ''Data format is incorrect. Missing columns. Required: Material, Material Description, Quantity, Unit of Entry, Movement Type.''"
    by code_simp
  have i: "\<forall>c \<in> set required. str_includes schemaMessage c" by code_simp
  from p l m i show ?thesis by simp
qed

text \<open>The headers without \<open>Quantity\<close>.\<close>

theorem schema_error_witness:
  "processData exampleEnv \<lparr> headers = [''Material'', ''Material Description'', ''Unit of Entry'', ''Movement Type''], rows = [] \<rparr>
     = Inl (Error schemaMessage) \<and>
   inventoryData (loadInventory exampleEnv 0 exampleState
      (HttpResponse \<lparr> headers = [''Material'', ''Material Description'', ''Unit of Entry'', ''Movement Type''], rows = [] \<rparr>))
     = [boltSummary] \<and>
   str_includes schemaMessage ''Quantity''"
proof -
  let ?r = "\<lparr> headers = [''Material'', ''Material Description'', ''Unit of Entry'', ''Movement Type''], rows = [] \<rparr>"
  have 1: "''Quantity'' \<in> set required" by (simp add: required_def)
  have 2: "''Quantity'' \<notin> set (headers ?r)" by simp
  have 3: "inventoryData exampleState = [boltSummary]" by (simp add: exampleState_def)
  from schema_error[OF 1 2, of exampleEnv 0 exampleState] 1 3 show ?thesis by auto
qed



subsection \<open>C8: the CSV text\<close>

text \<open>
  C8, as amended. In the inventory export the description is double-quoted with its
  double quotes doubled, while the material, the three numbers and the unit are written
  as they are; there is one record for each item of the base-filtered inventory, in the
  order of the sort. In the transaction export the user, the cost centre, the document,
  the reservation, the header text and the text are double-quoted with their double
  quotes doubled, while the posting date and the quantity are written as they are. In
  both, the fields of a record are joined by commas and the records follow the header
  row, joined by newlines. Reading a quoted field back gives the text that was quoted.
\<close>

theorem csv_format:
  "(exportInventoryToCsv E st = Inr (Some csv) \<longrightarrow>
      (\<exists>base items. baseFilteredInventory st = Inr base \<and> mset items = mset base \<and>
         csv = join [CHR 0x0A]
                 (join '','' inventoryHeaders #
                  map (\<lambda>item. join '',''
                         [ToString E (material item),
                          quoted (ToString E (materialDescription item)),
                          numToString E (totalIn item), numToString E (totalOut item),
                          numToString E (balance item), ToString E (unit item)]) items))) \<and>
   (exportToCsv E st = Inr (Some csv') \<longrightarrow>
      (\<exists>details. detailedTransactionsView E st = Some details \<and>
         csv' = join [CHR 0x0A]
                  (join '','' transactionHeaders #
                   map (\<lambda>tx. join '',''
                          ([ToString E (postingDate tx),
                            numToString E (if viewKind details = ViewIn then quantity tx
                                           else num_neg (quantity tx))] @
                           map (\<lambda>v. quoted (ToString E (orElse v (Str []))))
                             [user tx, costCenter tx, document tx, reservation tx,
                              headerText tx, freeText tx]))
                     (transactions details)))) \<and>
   unquote (quoted s) = Some s"
proof (intro conjI impI)
  assume a: "exportInventoryToCsv E st = Inr (Some csv)"
  then obtain items ls where i: "sortedInventory E st = Inr items"
    and m: "mapE (inventoryLine E) items = Inr ls"
    and c: "csv = join [CHR 0x0A] (join '','' inventoryHeaders # ls)"
    unfolding exportInventoryToCsv_def by (auto split: sum.splits if_splits)
  have "ls = map (\<lambda>item. join '',''
                         [ToString E (material item),
                          quoted (ToString E (materialDescription item)),
                          numToString E (totalIn item), numToString E (totalOut item),
                          numToString E (balance item), ToString E (unit item)]) items"
    using m by (rule mapE_Inr) (rule inventoryLine_Inr)
  with c have "csv = join [CHR 0x0A]
                 (join '','' inventoryHeaders #
                  map (\<lambda>item. join '',''
                         [ToString E (material item),
                          quoted (ToString E (materialDescription item)),
                          numToString E (totalIn item), numToString E (totalOut item),
                          numToString E (balance item), ToString E (unit item)]) items)"
    by simp
  moreover from i obtain base where "baseFilteredInventory st = Inr base" and "mset items = mset base"
    by (auto simp: sortedInventory_def mset_Array_sort split: sum.splits)
  ultimately show "\<exists>base items. baseFilteredInventory st = Inr base \<and> mset items = mset base \<and>
         csv = join [CHR 0x0A]
                 (join '','' inventoryHeaders #
                  map (\<lambda>item. join '',''
                         [ToString E (material item),
                          quoted (ToString E (materialDescription item)),
                          numToString E (totalIn item), numToString E (totalOut item),
                          numToString E (balance item), ToString E (unit item)]) items)"
    by blast
next
  assume a: "exportToCsv E st = Inr (Some csv')"
  then obtain details ls where d: "detailedTransactionsView E st = Some details"
    and m: "mapE (transactionLine E (viewKind details)) (transactions details) = Inr ls"
    and c: "csv' = join [CHR 0x0A] (join '','' transactionHeaders # ls)"
    unfolding exportToCsv_def by (auto split: sum.splits if_splits option.splits)
  have "ls = map (\<lambda>tx. join '',''
                          ([ToString E (postingDate tx),
                            numToString E (if viewKind details = ViewIn then quantity tx
                                           else num_neg (quantity tx))] @
                           map (\<lambda>v. quoted (ToString E (orElse v (Str []))))
                             [user tx, costCenter tx, document tx, reservation tx,
                              headerText tx, freeText tx]))
                     (transactions details)"
    using m by (rule mapE_Inr) (rule transactionLine_Inr)
  with d c show "\<exists>details. detailedTransactionsView E st = Some details \<and>
         csv' = join [CHR 0x0A]
                  (join '','' transactionHeaders #
                   map (\<lambda>tx. join '',''
                          ([ToString E (postingDate tx),
                            numToString E (if viewKind details = ViewIn then quantity tx
                                           else num_neg (quantity tx))] @
                           map (\<lambda>v. quoted (ToString E (orElse v (Str []))))
                             [user tx, costCenter tx, document tx, reservation tx,
                              headerText tx, freeText tx]))
                     (transactions details))"
    by blast
next
  show "unquote (quoted s) = Some s" by (rule unquote_quoted)
qed

text \<open>
  The two exports of the example state, and the example of the specification: the
  description \<open>He said "hi"\<close>.
\<close>

theorem csv_format_witness:
  "exportInventoryToCsv exampleEnv exampleState =
     Inr (Some (''Material,MaterialDescription,TotalIn,TotalOut,Balance,Unit'' @ [CHR 0x0A] @
                ''M1,'' @ [CHR 0x22] @ ''Bolt'' @ [CHR 0x22] @ '',10,4,6,EA'')) \<and>
   exportToCsv exampleEnv exampleState =
     Inr (Some (''PostingDate,Quantity,User,CostCenter,Document,Reservation,HeaderText,Text'' @
                [CHR 0x0A] @ '',-4,'' @
                [CHR 0x22, CHR 0x22, CHR '','', CHR 0x22, CHR 0x22, CHR '','', CHR 0x22, CHR 0x22,
                 CHR '','', CHR 0x22, CHR 0x22, CHR '','', CHR 0x22, CHR 0x22, CHR '','',
                 CHR 0x22, CHR 0x22])) \<and>
   quoted (''He said '' @ [CHR 0x22] @ ''hi'' @ [CHR 0x22]) =
     [CHR 0x22] @ ''He said '' @ [CHR 0x22, CHR 0x22] @ ''hi'' @ [CHR 0x22, CHR 0x22, CHR 0x22] \<and>
   unquote ([CHR 0x22] @ ''He said '' @ [CHR 0x22, CHR 0x22] @ ''hi'' @ [CHR 0x22, CHR 0x22, CHR 0x22]) =
     Some (''He said '' @ [CHR 0x22] @ ''hi'' @ [CHR 0x22])"
proof -
  let ?csv = "''Material,MaterialDescription,TotalIn,TotalOut,Balance,Unit'' @ [CHR 0x0A] @
                ''M1,'' @ [CHR 0x22] @ ''Bolt'' @ [CHR 0x22] @ '',10,4,6,EA''"
  let ?csv' = "''PostingDate,Quantity,User,CostCenter,Document,Reservation,HeaderText,Text'' @
                [CHR 0x0A] @ '',-4,'' @
                [CHR 0x22, CHR 0x22, CHR '','', CHR 0x22, CHR 0x22, CHR '','', CHR 0x22, CHR 0x22,
                 CHR '','', CHR 0x22, CHR 0x22, CHR '','', CHR 0x22, CHR 0x22, CHR '','',
                 CHR 0x22, CHR 0x22]"
  let ?s = "''He said '' @ [CHR 0x22] @ ''hi'' @ [CHR 0x22]"
  have 1: "exportInventoryToCsv exampleEnv exampleState = Inr (Some ?csv)" by code_simp
  have 2: "exportToCsv exampleEnv exampleState = Inr (Some ?csv')" by code_simp
  have 3: "quoted ?s = [CHR 0x22] @ ''He said '' @ [CHR 0x22, CHR 0x22] @ ''hi'' @ [CHR 0x22, CHR 0x22, CHR 0x22]"
    by code_simp
  from csv_format[of exampleEnv exampleState ?csv ?csv' ?s] 1 2 3 show ?thesis by simp
qed

text \<open>
  C8 as stated fails: the material \<open>M1\<close> and the unit \<open>EA\<close> are string fields, and
  the inventory export writes them without quotes.
\<close>

theorem unquoted_material_counterexample:
  "exportInventoryToCsv exampleEnv exampleState =
     Inr (Some (join [CHR 0x0A]
        [join '','' inventoryHeaders,
         ''M1,'' @ [CHR 0x22] @ ''Bolt'' @ [CHR 0x22] @ '',10,4,6,EA''])) \<and>
   specInventoryLine exampleEnv boltSummary =
     [CHR 0x22] @ ''M1'' @ [CHR 0x22] @ '','' @ [CHR 0x22] @ ''Bolt'' @ [CHR 0x22] @ '',10,4,6,'' @
     [CHR 0x22] @ ''EA'' @ [CHR 0x22] \<and>
   ''M1,'' @ [CHR 0x22] @ ''Bolt'' @ [CHR 0x22] @ '',10,4,6,EA'' \<noteq> specInventoryLine exampleEnv boltSummary"
  by code_simp


subsection \<open>C9: a blank quantity\<close>

text \<open>
  C9, as amended. Take a row whose Movement Type cell is a string that, trimmed, is
  \<open>101\<close> or \<open>201\<close>, whose Material cell is truthy (a non-empty string or a number
  other than 0), whose Quantity cell is a string of white space only (the empty string
  included) and whose cost-centre code \<open>row[costCenterIndex] || ''\<close> is a string. Its
  quantity converts to 0 and the row is admitted. The loop body returns on it: it adds
  0 to \<open>totalIn\<close> or to \<open>totalOut\<close> and appends a transaction of quantity 0; the
  totals of the map, which are binary64 numbers, stay as they were. \<open>processData\<close>
  returns exactly when the required headers are present and the loop body returns on
  every row, and then that transaction is in the corresponding list of the row's
  material.
\<close>

theorem blank_quantity:
  assumes "cellAt row (indexOf hs ''Movement Type'') = Str mt"
    and "trim mt = ''101'' \<or> trim mt = ''201''"
    and "truthy (cellAt row (indexOf hs ''Material''))"
    and "cellAt row (indexOf hs ''Quantity'') = Str q"
    and "\<forall>c \<in> set q. isWhiteSpace c"
    and "orElse (cellAt row (indexOf hs ''Cost Center'')) (Str []) = Str code"
  shows "Number (cellAt row (indexOf hs ''Quantity'')) = Fin 0 \<and>
         admitted hs row \<and> rowReturns hs row \<and>
         quantity (rowTransaction E hs row) = Fin 0 \<and>
         processRow E hs m row =
           Inr (modify (cellAt row (indexOf hs ''Material''))
                  (\<lambda>c. if trim mt = ''101''
                       then c\<lparr> totalIn := num_add (totalIn c) (Fin 0),
                               inTransactions := inTransactions c @ [rowTransaction E hs row] \<rparr>
                       else c\<lparr> totalOut := num_add (totalOut c) (Fin 0),
                               outTransactions := outTransactions c @ [rowTransaction E hs row] \<rparr>)
                  (if has m (cellAt row (indexOf hs ''Material'')) then m
                   else m @ [(cellAt row (indexOf hs ''Material''), newSummary hs row)])) \<and>
         ((\<forall>(k, c) \<in> set m. binary64 (totalIn c) \<and> binary64 (totalOut c)) \<longrightarrow>
            processRow E hs m row =
              Inr (modify (cellAt row (indexOf hs ''Material''))
                     (\<lambda>c. if trim mt = ''101''
                          then c\<lparr> inTransactions := inTransactions c @ [rowTransaction E hs row] \<rparr>
                          else c\<lparr> outTransactions := outTransactions c @ [rowTransaction E hs row] \<rparr>)
                     (if has m (cellAt row (indexOf hs ''Material'')) then m
                      else m @ [(cellAt row (indexOf hs ''Material''), newSummary hs row)]))) \<and>
         (hs = headers response \<and> row \<in> set (rows response) \<longrightarrow>
            ((\<exists>out. processData E response = Inr out) \<longleftrightarrow>
               (\<forall>h \<in> set required. h \<in> set hs) \<and> (\<forall>r \<in> set (rows response). rowReturns hs r)) \<and>
            (\<forall>out. processData E response = Inr out \<longrightarrow>
               (\<exists>s \<in> set out. material s = cellAt row (indexOf hs ''Material'') \<and>
                  rowTransaction E hs row
                    \<in> set (if trim mt = ''101'' then inTransactions s else outTransactions s))))"
proof -
  have q0: "Number (cellAt row (indexOf hs ''Quantity'')) = Fin 0"
    using assms(4,5) by (simp add: StringToNumber_blank)
  then have rq: "rowQuantity hs row = Fin 0" by (simp add: rowQuantity_def)
  have rm: "rowMovement hs row = trim mt" using assms(1) by (simp add: rowMovement_def)
  have adm: "admitted hs row"
    using assms(2,3) rq rm by (simp add: admitted_def rowMaterial_def)
  have ret: "rowReturns hs row"
    using assms(1,6) by (simp add: rowReturns_def)
  have tq: "quantity (rowTransaction E hs row) = Fin 0"
    using q0 by (simp add: rowTransaction_def mkTransaction_def)
  have ap: "applyRow E hs row =
         (\<lambda>c. if trim mt = ''101''
              then c\<lparr> totalIn := num_add (totalIn c) (Fin 0),
                      inTransactions := inTransactions c @ [rowTransaction E hs row] \<rparr>
              else c\<lparr> totalOut := num_add (totalOut c) (Fin 0),
                      outTransactions := outTransactions c @ [rowTransaction E hs row] \<rparr>)"
    by (rule ext) (simp add: applyRow_def rm rq)
  from ret obtain m' where p: "processRow E hs m row = Inr m'"
    using processRow_returns[of E hs m row] by blast
  have step: "processRow E hs m row =
           Inr (modify (cellAt row (indexOf hs ''Material''))
                  (\<lambda>c. if trim mt = ''101''
                       then c\<lparr> totalIn := num_add (totalIn c) (Fin 0),
                               inTransactions := inTransactions c @ [rowTransaction E hs row] \<rparr>
                       else c\<lparr> totalOut := num_add (totalOut c) (Fin 0),
                               outTransactions := outTransactions c @ [rowTransaction E hs row] \<rparr>)
                  (if has m (cellAt row (indexOf hs ''Material'')) then m
                   else m @ [(cellAt row (indexOf hs ''Material''), newSummary hs row)]))"
    using processRow_cases[OF p] adm p unfolding ap rowMaterial_def by simp
  have fin: "\<exists>s \<in> set out. material s = cellAt row (indexOf hs ''Material'') \<and>
               rowTransaction E hs row
                 \<in> set (if trim mt = ''101'' then inTransactions s else outTransactions s)"
    if h: "hs = headers response" and r: "row \<in> set (rows response)"
      and p: "processData E response = Inr out" for out
  proof -
    have "rowMaterial hs row \<in> set (map material out)"
      unfolding processData_materials(2)[OF p] using adm r h by auto
    then obtain s where s: "s \<in> set out" and k: "material s = rowMaterial hs row" by auto
    note f = processData_fields[OF p s]
    show ?thesis
    proof (cases "trim mt = ''101''")
      case True
      then have "row \<in> set (inboundRows hs (material s) (rows response))"
        using adm r k rm by (simp add: inboundRows_def)
      then have "rowTransaction E hs row \<in> set (inTransactions s)"
        unfolding f(5) set_Array_sort using h by auto
      with s k True show ?thesis by (auto simp: rowMaterial_def)
    next
      case False
      with assms(2) have o: "trim mt = ''201''" by simp
      then have "row \<in> set (outboundRows hs (material s) (rows response))"
        using adm r k rm by (simp add: outboundRows_def)
      then have "rowTransaction E hs row \<in> set (outTransactions s)"
        unfolding f(6) set_Array_sort using h by auto
      with s k False show ?thesis by (auto simp: rowMaterial_def)
    qed
  qed
  have same: "processRow E hs m row =
              Inr (modify (cellAt row (indexOf hs ''Material''))
                     (\<lambda>c. if trim mt = ''101''
                          then c\<lparr> inTransactions := inTransactions c @ [rowTransaction E hs row] \<rparr>
                          else c\<lparr> outTransactions := outTransactions c @ [rowTransaction E hs row] \<rparr>)
                     (if has m (cellAt row (indexOf hs ''Material'')) then m
                      else m @ [(cellAt row (indexOf hs ''Material''), newSummary hs row)]))"
    if b: "\<forall>(k, c) \<in> set m. binary64 (totalIn c) \<and> binary64 (totalOut c)"
  proof -
    let ?m1 = "if has m (cellAt row (indexOf hs ''Material'')) then m
               else m @ [(cellAt row (indexOf hs ''Material''), newSummary hs row)]"
    have "\<forall>(k, c) \<in> set ?m1. binary64 (totalIn c) \<and> binary64 (totalOut c)"
      using b by (auto simp: newSummary_def binary64_zero)
    then have z: "num_add (totalIn c) (Fin 0) = totalIn c \<and> num_add (totalOut c) (Fin 0) = totalOut c"
      if "(k, c) \<in> set ?m1" for k c
      using that num_add_zero by blast
    show ?thesis
      unfolding step modify_def sum.inject by (intro map_cong) (use z in auto)
  qed
  have rets: "(\<exists>out. processData E response = Inr out) \<longleftrightarrow>
               (\<forall>h \<in> set required. h \<in> set hs) \<and> (\<forall>r \<in> set (rows response). rowReturns hs r)"
    if "hs = headers response"
    unfolding that by (rule processData_returns)
  from q0 adm ret tq step same fin rets show ?thesis by blast
qed

text \<open>A receipt whose quantity cell holds two spaces.\<close>

theorem blank_quantity_witness:
  "Number (cellAt blankQuantityRow (indexOf exampleHeaders ''Quantity'')) = Fin 0 \<and>
   rowReturns exampleHeaders blankQuantityRow \<and>
   processRow exampleEnv exampleHeaders [] blankQuantityRow =
     Inr [(Str ''M1'', summary.truncate blankQuantitySummary)] \<and>
   processData exampleEnv \<lparr> headers = exampleHeaders, rows = [blankQuantityRow] \<rparr>
     = Inr [blankQuantitySummary] \<and>
   rowTransaction exampleEnv exampleHeaders blankQuantityRow = exampleTransaction Undefined (Fin 0) \<and>
   inTransactions blankQuantitySummary = [exampleTransaction Undefined (Fin 0)] \<and>
   totalIn blankQuantitySummary = Fin 0"
proof -
  let ?r = "\<lparr> headers = exampleHeaders, rows = [blankQuantityRow] \<rparr>"
  have 1: "cellAt blankQuantityRow (indexOf exampleHeaders ''Movement Type'') = Str ''101''" by code_simp
  have 2: "trim ''101'' = ''101'' \<or> trim ''101'' = ''201''" by code_simp
  have 3: "truthy (cellAt blankQuantityRow (indexOf exampleHeaders ''Material''))" by code_simp
  have 4: "cellAt blankQuantityRow (indexOf exampleHeaders ''Quantity'') = Str ''  ''" by code_simp
  have 5: "\<forall>c \<in> set ''  ''. isWhiteSpace c" by code_simp
  have 6: "orElse (cellAt blankQuantityRow (indexOf exampleHeaders ''Cost Center'')) (Str []) = Str []"
    by code_simp
  have 7: "processData exampleEnv ?r = Inr [blankQuantitySummary]" by code_simp
  have 8: "rowTransaction exampleEnv exampleHeaders blankQuantityRow = exampleTransaction Undefined (Fin 0)"
    by code_simp
  have 9: "inTransactions blankQuantitySummary = [exampleTransaction Undefined (Fin 0)]"
    and 10: "totalIn blankQuantitySummary = Fin 0"
    by (simp_all add: blankQuantitySummary_def)
  have 11: "processRow exampleEnv exampleHeaders [] blankQuantityRow =
     Inr [(Str ''M1'', summary.truncate blankQuantitySummary)]" by code_simp
  from blank_quantity[OF 1 2 3 4 5 6, of exampleEnv "[]" ?r] 7 8 9 10 11
  show ?thesis by simp
qed

text \<open>
  C9 as stated fails: a Material cell holding the number 0 is not empty, yet the guard
  \<open>!material\<close> skips the row.
\<close>

theorem zero_material_counterexample:
  "cellAt zeroMaterialRow (indexOf exampleHeaders ''Movement Type'') = Str ''101'' \<and>
   cellAt zeroMaterialRow (indexOf exampleHeaders ''Material'') = Num (Fin 0) \<and>
   cellAt zeroMaterialRow (indexOf exampleHeaders ''Quantity'') = Str [] \<and>
   \<not> admitted exampleHeaders zeroMaterialRow \<and>
   processData exampleEnv \<lparr> headers = exampleHeaders, rows = [zeroMaterialRow] \<rparr> = Inr []"
  by code_simp


subsection \<open>C10: the size of a page\<close>

text \<open>
  C10, as amended. In every state whose current page is a whole number and whose
  inventory has fewer than \<open>2 ^ 32\<close> items (the limit of a JavaScript array), whatever
  the data, the search term, the filters and the sort configuration, the paginated view
  holds at most 12 items when it returns.
\<close>

theorem page_size:
  assumes "paginatedInventory E st = Inr page"
    and "currentPage st = Fin (of_int p)"
    and "length (inventoryData st) < 2 ^ 32"
  shows "length page \<le> 12"
proof -
  from assms(1) obtain data where d: "sortedInventory E st = Inr data"
    by (auto simp: paginatedInventory_def split: sum.splits)
  then obtain base where b: "baseFilteredInventory st = Inr base"
    and s: "data = Array_sort (compareItems E (sortConfig st)) base"
    by (auto simp: sortedInventory_def split: sum.splits)
  from baseFilteredInventory_length[OF b] have "length data \<le> length (inventoryData st)"
    by (simp add: s length_Array_sort)
  with assms(3) have l: "length data < 2 ^ 32" by simp
  from assms(1) d have "page = slice data (num_mul (num_sub (Fin (of_int p)) (Fin 1)) (Fin 12))
        (num_add (num_mul (num_sub (Fin (of_int p)) (Fin 1)) (Fin 12)) (Fin 12))"
    by (simp add: paginatedInventory_def Let_def assms(2) itemsPerPage_def)
  then show ?thesis using length_page_whole[OF l] by simp
qed

text \<open>The state of the example.\<close>

theorem page_size_witness:
  "paginatedInventory exampleEnv exampleState = Inr [boltSummary]
   \<and> currentPage exampleState = Fin (of_int 1)
   \<and> length (inventoryData exampleState) < 2 ^ 32
   \<and> length [boltSummary] \<le> 12"
proof -
  have a: "paginatedInventory exampleEnv exampleState = Inr [boltSummary]" by code_simp
  have b: "currentPage exampleState = Fin (of_int 1)" by code_simp
  have c: "length (inventoryData exampleState) < 2 ^ 32" by (simp add: exampleState_def)
  from page_size[OF a b c] a b c show ?thesis by simp
qed

text \<open>
  C10 as stated fails: with thirteen items there are two pages, and \<open>goToPage\<close> accepts
  the binary64 number nearest to \<open>13 / 12\<close>. The start index is then a little below 1,
  which \<open>slice\<close> truncates to 0, and the end index is the sum of the start index and 12
  rounded to binary64, which is 13: the page holds all thirteen items.
\<close>

theorem fractional_page_counterexample:
  "round64 (13 / 12) = thirteenTwelfths
   \<and> totalPages thirteenItems = Inr (Fin 2)
   \<and> goToPage thirteenItems thirteenTwelfths = Inr (thirteenItems\<lparr> currentPage := thirteenTwelfths \<rparr>)
   \<and> paginatedInventory exampleEnv (thirteenItems\<lparr> currentPage := thirteenTwelfths \<rparr>)
       = Inr (replicate 13 boltSummary)
   \<and> \<not> length (replicate 13 boltSummary) \<le> 12"
proof -
  have "round64 (13 / 12) = thirteenTwelfths" by code_simp
  moreover have "totalPages thirteenItems = Inr (Fin 2)" by code_simp
  moreover have "goToPage thirteenItems thirteenTwelfths = Inr (thirteenItems\<lparr> currentPage := thirteenTwelfths \<rparr>)"
    by code_simp
  moreover have "paginatedInventory exampleEnv (thirteenItems\<lparr> currentPage := thirteenTwelfths \<rparr>)
       = Inr (replicate 13 boltSummary)" by code_simp
  ultimately show ?thesis by simp
qed

end
